theory Spec2Isabelle
  imports Complex_Main
begin

section \<open>Data model of the broker (pubsub.js, websocket-handler.js)\<close>

text \<open>
  The registry of \<^verbatim>\<open>PubSubSystem\<close> is embedded with explicit state passing. A JavaScript
  \<^verbatim>\<open>Map\<close> is a partial map, a JavaScript \<^verbatim>\<open>Set\<close> is a duplicate-free list in
  insertion order (the order \<^verbatim>\<open>for ... of\<close> visits it), an array is a list. Every
  \<^verbatim>\<open>throw\<close> is a value \<open>Inl e\<close>; the state is returned next to it, because the
  mutations made before a \<^verbatim>\<open>throw\<close> stay. The WebSocket objects are shared by
  reference between subscriber records, so they live in a store \<open>sockets\<close> indexed by
  a reference number, and a record holds the reference. Every reading of
  \<^verbatim>\<open>new Date().toISOString()\<close> inside one operation is the parameter \<open>now\<close>.

  The numbers that come from outside are not validated by the code: the two capacities
  (\<^verbatim>\<open>parseInt\<close> of a command-line flag, or whatever the caller of the constructor
  passes) and \<^verbatim>\<open>last_n\<close> (a JSON number). They are rationals here, so that negative
  and fractional values are inputs of the model as they are of the code. \<^verbatim>\<open>NaN\<close> is
  falsy and takes the default of \<^verbatim>\<open>||\<close>, like an absent option (\<open>None\<close>); the two
  infinities are left out. Lengths and counters stay natural numbers.
\<close>

type_synonym message = string

datatype frame =
    Event string message string
  | InfoTopic string string string
  | InfoClient string string string
  | ErrorFrame "string option" string string string
  | Ack "string option" string string

datatype error =
    TOPIC_ALREADY_EXISTS
  | TOPIC_NOT_FOUND
  | SUBSCRIPTION_NOT_FOUND
  | SUBSCRIBER_NOT_FOUND
  | SUBSCRIBER_DISCONNECTED
  | SLOW_CONSUMER
  | TypeError
  | TransportError

fun error_message :: "error \<Rightarrow> string" where
  "error_message TOPIC_ALREADY_EXISTS = ''TOPIC_ALREADY_EXISTS''"
| "error_message TOPIC_NOT_FOUND = ''TOPIC_NOT_FOUND''"
| "error_message SUBSCRIPTION_NOT_FOUND = ''SUBSCRIPTION_NOT_FOUND''"
| "error_message SUBSCRIBER_NOT_FOUND = ''SUBSCRIBER_NOT_FOUND''"
| "error_message SUBSCRIBER_DISCONNECTED = ''SUBSCRIBER_DISCONNECTED''"
| "error_message SLOW_CONSUMER = ''SLOW_CONSUMER''"
| "error_message TypeError = ''TypeError''"
| "error_message TransportError = ''TransportError''"

datatype reply =
    Created string
  | Deleted string
  | Subscribed string string
  | Unsubscribed string string
  | Published string int "(string \<times> string) list"

text \<open>
  Modelled from the spec: the transport. The \<^verbatim>\<open>ws\<close> library is not part of the
  repository; the code uses \<^verbatim>\<open>readyState\<close> (1 is OPEN), \<^verbatim>\<open>send\<close>, which may throw,
  and \<^verbatim>\<open>close\<close>. Whether \<^verbatim>\<open>send\<close> throws is the flag \<open>sendFails\<close>, which only
  the environment sets; a frame that was accepted is appended to \<open>sent\<close>.
  \<open>ws_clientId\<close> and \<open>isAlive\<close> are the two properties \<^verbatim>\<open>handleConnection\<close> attaches.
\<close>

record transport =
  readyState :: nat
  sendFails :: bool
  sent :: "frame list"
  closeArgs :: "(nat \<times> string) option"
  ws_clientId :: string
  isAlive :: bool

definition ws_send :: "transport \<Rightarrow> frame \<Rightarrow> transport option" where
  "ws_send t f = (if sendFails t then None else Some (t\<lparr>sent := sent t @ [f]\<rparr>))"

definition ws_close :: "transport \<Rightarrow> nat \<Rightarrow> string \<Rightarrow> transport" where
  "ws_close t code reason = t\<lparr>readyState := 2, closeArgs := Some (code, reason)\<rparr>"

record subscriber =
  sub_ws :: nat
  sub_topics :: "string list"
  sub_queue :: "frame list"

record topic =
  tsubscribers :: "string list"
  messageHistory :: "frame list"

record topic_stats =
  st_messages :: nat
  st_subscribers :: nat

record options =
  opt_maxQueueSize :: "rat option"
  opt_ringBufferSize :: "rat option"
  opt_backpressurePolicy :: "string option"

record state =
  maxQueueSize :: rat
  ringBufferSize :: rat
  backpressurePolicy :: string
  topics :: "string \<rightharpoonup> topic"
  subscribers :: "string \<rightharpoonup> subscriber"
  totalMessages :: nat
  totalSubscribers :: int
  topicStats :: "string \<rightharpoonup> topic_stats"
  sockets :: "nat \<Rightarrow> transport"

subsection \<open>JavaScript primitives\<close>

text \<open>\<^verbatim>\<open>x || d\<close> on an optional number: \<^verbatim>\<open>undefined\<close> and \<^verbatim>\<open>0\<close> are both falsy.\<close>

definition or_default_num :: "rat option \<Rightarrow> rat \<Rightarrow> rat" where
  "or_default_num x d = (case x of None \<Rightarrow> d | Some n \<Rightarrow> if n = 0 then d else n)"

text \<open>\<^verbatim>\<open>x || d\<close> on an optional string: \<^verbatim>\<open>undefined\<close> and the empty string are falsy.\<close>

definition or_default_str :: "string option \<Rightarrow> string \<Rightarrow> string" where
  "or_default_str x d = (case x of None \<Rightarrow> d | Some v \<Rightarrow> if v = [] then d else v)"

text \<open>\<^verbatim>\<open>Set.prototype.add\<close> and \<^verbatim>\<open>Set.prototype.delete\<close>.\<close>

definition set_add :: "'a list \<Rightarrow> 'a \<Rightarrow> 'a list" where
  "set_add xs x = (if x \<in> set xs then xs else xs @ [x])"

definition set_delete :: "'a list \<Rightarrow> 'a \<Rightarrow> 'a list" where
  "set_delete xs x = removeAll x xs"

text \<open>\<^verbatim>\<open>ToIntegerOrInfinity\<close> on a finite number: truncation towards zero.\<close>

definition js_trunc :: "rat \<Rightarrow> int" where
  "js_trunc x = (if x < 0 then \<lceil>x\<rceil> else \<lfloor>x\<rfloor>)"

text \<open>\<^verbatim>\<open>Array.prototype.slice(start)\<close>: the start is truncated to an integer; a negative
  one counts from the end, clamped at 0.\<close>

definition js_slice :: "'a list \<Rightarrow> rat \<Rightarrow> 'a list" where
  "js_slice xs start =
     (if js_trunc start < 0 then drop (nat (max (int (length xs) + js_trunc start) 0)) xs
      else drop (nat (js_trunc start)) xs)"

text \<open>\<^verbatim>\<open>Array.prototype.shift\<close> as a statement: drops the head, does nothing on \<open>[]\<close>.\<close>

definition js_shift :: "'a list \<Rightarrow> 'a list" where
  "js_shift xs = (case xs of [] \<Rightarrow> [] | _ # r \<Rightarrow> r)"

section \<open>PubSubSystem\<close>

definition unopened :: transport where
  "unopened = \<lparr>readyState = 0, sendFails = False, sent = [], closeArgs = None,
               ws_clientId = [], isAlive = False\<rparr>"

definition PubSubSystem :: "options \<Rightarrow> state" where
  "PubSubSystem opts =
     \<lparr>maxQueueSize = or_default_num (opt_maxQueueSize opts) 1000,
      ringBufferSize = or_default_num (opt_ringBufferSize opts) 100,
      backpressurePolicy = or_default_str (opt_backpressurePolicy opts) ''DROP_OLDEST'',
      topics = Map.empty,
      subscribers = Map.empty,
      totalMessages = 0,
      totalSubscribers = 0,
      topicStats = Map.empty,
      sockets = (\<lambda>_. unopened)\<rparr>"

text \<open>\<^verbatim>\<open>PubSubServer\<close> (server.js) applies the same defaults to its own options before
  it constructs the \<^verbatim>\<open>PubSubSystem\<close>.\<close>

definition PubSubServer_pubsub :: "options \<Rightarrow> state" where
  "PubSubServer_pubsub opts =
     PubSubSystem
       \<lparr>opt_maxQueueSize = Some (or_default_num (opt_maxQueueSize opts) 1000),
        opt_ringBufferSize = Some (or_default_num (opt_ringBufferSize opts) 100),
        opt_backpressurePolicy =
          Some (or_default_str (opt_backpressurePolicy opts) ''DROP_OLDEST'')\<rparr>"

definition createTopic :: "state \<Rightarrow> string \<Rightarrow> state \<times> (error + reply)" where
  "createTopic s topicName =
     (if topics s topicName \<noteq> None then (s, Inl TOPIC_ALREADY_EXISTS)
      else
        (s\<lparr>topics := (topics s)(topicName \<mapsto> \<lparr>tsubscribers = [], messageHistory = []\<rparr>),
           topicStats := (topicStats s)(topicName \<mapsto> \<lparr>st_messages = 0, st_subscribers = 0\<rparr>)\<rparr>,
         Inr (Created topicName)))"

text \<open>One round of the first loop of \<^verbatim>\<open>deleteTopic\<close>: the notice is sent straight on the
  transport when it is OPEN, and a throwing \<^verbatim>\<open>send\<close> is caught and logged.\<close>

definition notifyDeleted :: "frame \<Rightarrow> state \<Rightarrow> string \<Rightarrow> state" where
  "notifyDeleted deleteMessage s clientId =
     (case subscribers s clientId of
        None \<Rightarrow> s
      | Some subscriber \<Rightarrow>
          if readyState (sockets s (sub_ws subscriber)) = 1 then
            (case ws_send (sockets s (sub_ws subscriber)) deleteMessage of
               None \<Rightarrow> s
             | Some t \<Rightarrow> s\<lparr>sockets := (sockets s)(sub_ws subscriber := t)\<rparr>)
          else s)"

text \<open>One round of the second loop of \<^verbatim>\<open>deleteTopic\<close>.\<close>

definition forgetTopic :: "string \<Rightarrow> state \<Rightarrow> string \<Rightarrow> state" where
  "forgetTopic topicName s clientId =
     (case subscribers s clientId of
        None \<Rightarrow> s
      | Some subscriber \<Rightarrow>
          s\<lparr>subscribers := (subscribers s)(clientId \<mapsto>
              subscriber\<lparr>sub_topics := set_delete (sub_topics subscriber) topicName\<rparr>)\<rparr>)"

definition deleteTopic :: "state \<Rightarrow> string \<Rightarrow> string \<Rightarrow> state \<times> (error + reply)" where
  "deleteTopic s topicName now =
     (case topics s topicName of
        None \<Rightarrow> (s, Inl TOPIC_NOT_FOUND)
      | Some topic \<Rightarrow>
          let deleteMessage = InfoTopic topicName ''topic_deleted'' now;
              s1 = foldl (notifyDeleted deleteMessage) s (tsubscribers topic);
              s2 = foldl (forgetTopic topicName) s1 (tsubscribers topic)
          in (s2\<lparr>topics := (topics s2)(topicName := None),
                 topicStats := (topicStats s2)(topicName := None)\<rparr>,
              Inr (Deleted topicName)))"

text \<open>One round of the loop of \<^verbatim>\<open>removeSubscriber\<close> over the subscriber's topics.\<close>

definition leaveTopic :: "string \<Rightarrow> state \<Rightarrow> string \<Rightarrow> state" where
  "leaveTopic clientId s topicName =
     (case topics s topicName of
        None \<Rightarrow> s
      | Some topic \<Rightarrow>
          let topic' = topic\<lparr>tsubscribers := set_delete (tsubscribers topic) clientId\<rparr>;
              s1 = s\<lparr>topics := (topics s)(topicName \<mapsto> topic')\<rparr>
          in (case topicStats s1 topicName of
                None \<Rightarrow> s1
              | Some st \<Rightarrow>
                  s1\<lparr>topicStats := (topicStats s1)(topicName \<mapsto>
                       st\<lparr>st_subscribers := length (tsubscribers topic')\<rparr>)\<rparr>))"

definition removeSubscriber :: "state \<Rightarrow> string \<Rightarrow> state" where
  "removeSubscriber s clientId =
     (case subscribers s clientId of
        None \<Rightarrow> s
      | Some subscriber \<Rightarrow>
          let s1 = foldl (leaveTopic clientId) s (sub_topics subscriber)
          in s1\<lparr>subscribers := (subscribers s1)(clientId := None),
                totalSubscribers := totalSubscribers s1 - 1\<rparr>)"

text \<open>The \<^verbatim>\<open>while\<close> loop of \<^verbatim>\<open>flushSubscriberQueue\<close>: send the head, shift it, stop at
  the first \<^verbatim>\<open>send\<close> that throws.\<close>

fun drain :: "transport \<Rightarrow> frame list \<Rightarrow> transport \<times> frame list" where
  "drain t [] = (t, [])"
| "drain t (m # q) =
     (case ws_send t m of
        None \<Rightarrow> (t, m # q)
      | Some t' \<Rightarrow> drain t' q)"

definition flushSubscriberQueue :: "state \<Rightarrow> string \<Rightarrow> state" where
  "flushSubscriberQueue s clientId =
     (case subscribers s clientId of
        None \<Rightarrow> s
      | Some subscriber \<Rightarrow>
          if readyState (sockets s (sub_ws subscriber)) \<noteq> 1 then s
          else
            (case drain (sockets s (sub_ws subscriber)) (sub_queue subscriber) of
               (t, q) \<Rightarrow>
                 s\<lparr>sockets := (sockets s)(sub_ws subscriber := t),
                   subscribers := (subscribers s)(clientId \<mapsto> subscriber\<lparr>sub_queue := q\<rparr>)\<rparr>))"

text \<open>The \<^verbatim>\<open>try\<close> block of the DISCONNECT branch: \<^verbatim>\<open>close\<close> is reached only when
  \<^verbatim>\<open>send\<close> did not throw.\<close>

definition sendSlowConsumer :: "transport \<Rightarrow> string \<Rightarrow> transport" where
  "sendSlowConsumer t now =
     (case ws_send t (ErrorFrame None ''SLOW_CONSUMER'' ''Subscriber queue overflow'' now) of
        None \<Rightarrow> t
      | Some t' \<Rightarrow> ws_close t' 1008 ''SLOW_CONSUMER'')"

definition pushAndFlush :: "state \<Rightarrow> string \<Rightarrow> subscriber \<Rightarrow> frame list \<Rightarrow> frame \<Rightarrow> state" where
  "pushAndFlush s clientId subscriber q message =
     flushSubscriberQueue
       (s\<lparr>subscribers := (subscribers s)(clientId \<mapsto> subscriber\<lparr>sub_queue := q @ [message]\<rparr>)\<rparr>)
       clientId"

definition enqueueMessage :: "state \<Rightarrow> string \<Rightarrow> frame \<Rightarrow> string \<Rightarrow> state \<times> (error + unit)" where
  "enqueueMessage s clientId message now =
     (case subscribers s clientId of
        None \<Rightarrow> (s, Inl SUBSCRIBER_NOT_FOUND)
      | Some subscriber \<Rightarrow>
          if readyState (sockets s (sub_ws subscriber)) \<noteq> 1 then
            (removeSubscriber s clientId, Inl SUBSCRIBER_DISCONNECTED)
          else if of_nat (length (sub_queue subscriber)) \<ge> maxQueueSize s then
            (if backpressurePolicy s = ''DROP_OLDEST'' then
               (pushAndFlush s clientId subscriber (js_shift (sub_queue subscriber)) message,
                Inr ())
             else if backpressurePolicy s = ''DISCONNECT'' then
               (removeSubscriber
                  (s\<lparr>sockets := (sockets s)(sub_ws subscriber :=
                       sendSlowConsumer (sockets s (sub_ws subscriber)) now)\<rparr>)
                  clientId,
                Inl SLOW_CONSUMER)
             else (pushAndFlush s clientId subscriber (sub_queue subscriber) message, Inr ()))
          else (pushAndFlush s clientId subscriber (sub_queue subscriber) message, Inr ()))"

text \<open>The replay loop of \<^verbatim>\<open>subscribe\<close>: the first \<^verbatim>\<open>enqueueMessage\<close> that throws ends it.\<close>

fun replay :: "state \<Rightarrow> string \<Rightarrow> frame list \<Rightarrow> string \<Rightarrow> state \<times> (error + unit)" where
  "replay s clientId [] now = (s, Inr ())"
| "replay s clientId (m # ms) now =
     (case enqueueMessage s clientId m now of
        (s', Inl e) \<Rightarrow> (s', Inl e)
      | (s', Inr _) \<Rightarrow> replay s' clientId ms now)"

text \<open>The first part of \<^verbatim>\<open>subscribe\<close>: the record is created only when the client id has
  none, and then bound to the transport of the call.\<close>

definition registerSubscriber :: "state \<Rightarrow> string \<Rightarrow> nat \<Rightarrow> state \<times> subscriber" where
  "registerSubscriber s clientId ws =
     (case subscribers s clientId of
        None \<Rightarrow>
          (s\<lparr>subscribers := (subscribers s)(clientId \<mapsto>
                \<lparr>sub_ws = ws, sub_topics = [], sub_queue = []\<rparr>),
             totalSubscribers := totalSubscribers s + 1\<rparr>,
           \<lparr>sub_ws = ws, sub_topics = [], sub_queue = []\<rparr>)
      | Some subscriber \<Rightarrow> (s, subscriber))"

definition subscribe ::
  "state \<Rightarrow> string \<Rightarrow> nat \<Rightarrow> string \<Rightarrow> rat \<Rightarrow> string \<Rightarrow> state \<times> (error + reply)" where
  "subscribe s clientId ws topicName lastN now =
     (case topics s topicName of
        None \<Rightarrow> (s, Inl TOPIC_NOT_FOUND)
      | Some topic \<Rightarrow>
          (case registerSubscriber s clientId ws of
             (s1, subscriber) \<Rightarrow>
               let topic' = topic\<lparr>tsubscribers := set_add (tsubscribers topic) clientId\<rparr>;
                   subscriber' = subscriber\<lparr>sub_topics := set_add (sub_topics subscriber) topicName\<rparr>;
                   s2 = s1\<lparr>topics := (topics s1)(topicName \<mapsto> topic'),
                           subscribers := (subscribers s1)(clientId \<mapsto> subscriber')\<rparr>
               in (case topicStats s2 topicName of
                     None \<Rightarrow> (s2, Inl TypeError)
                   | Some st \<Rightarrow>
                       let s3 = s2\<lparr>topicStats := (topicStats s2)(topicName \<mapsto>
                                   st\<lparr>st_subscribers := length (tsubscribers topic')\<rparr>)\<rparr>
                       in if lastN > 0 \<and> length (messageHistory topic') > 0 then
                            (case replay s3 clientId (js_slice (messageHistory topic') (- lastN)) now of
                               (s4, Inl e) \<Rightarrow> (s4, Inl e)
                             | (s4, Inr _) \<Rightarrow> (s4, Inr (Subscribed topicName clientId)))
                          else (s3, Inr (Subscribed topicName clientId)))))"

definition unsubscribe :: "state \<Rightarrow> string \<Rightarrow> string \<Rightarrow> state \<times> (error + reply)" where
  "unsubscribe s clientId topicName =
     (case (topics s topicName, subscribers s clientId) of
        (Some topic, Some subscriber) \<Rightarrow>
          let topic' = topic\<lparr>tsubscribers := set_delete (tsubscribers topic) clientId\<rparr>;
              subscriber' = subscriber\<lparr>sub_topics := set_delete (sub_topics subscriber) topicName\<rparr>;
              s1 = s\<lparr>topics := (topics s)(topicName \<mapsto> topic'),
                     subscribers := (subscribers s)(clientId \<mapsto> subscriber')\<rparr>;
              s2 = (case topicStats s1 topicName of
                      None \<Rightarrow> s1
                    | Some st \<Rightarrow>
                        s1\<lparr>topicStats := (topicStats s1)(topicName \<mapsto>
                             st\<lparr>st_subscribers := length (tsubscribers topic')\<rparr>)\<rparr>)
          in (s2, Inr (Unsubscribed topicName clientId))
      | _ \<Rightarrow> (s, Inl SUBSCRIPTION_NOT_FOUND))"

text \<open>The fan-out loop of \<^verbatim>\<open>publish\<close>. The loop runs over the live set
  \<^verbatim>\<open>topic.subscribers\<close>; the only element a round can delete from it is the one being
  visited (through \<^verbatim>\<open>removeSubscriber\<close>), so the rounds are those of the set as it was
  when the loop began. A throwing \<^verbatim>\<open>enqueueMessage\<close> is caught and recorded.\<close>

fun fanout ::
  "state \<Rightarrow> string list \<Rightarrow> frame \<Rightarrow> string \<Rightarrow> state \<times> (string \<times> string) list" where
  "fanout s [] message now = (s, [])"
| "fanout s (clientId # rest) message now =
     (case enqueueMessage s clientId message now of
        (s', Inl e) \<Rightarrow>
          (case fanout s' rest message now of
             (s'', failed) \<Rightarrow> (s'', (clientId, error_message e) # failed))
      | (s', Inr _) \<Rightarrow> fanout s' rest message now)"

definition publish :: "state \<Rightarrow> string \<Rightarrow> message \<Rightarrow> string \<Rightarrow> state \<times> (error + reply)" where
  "publish s topicName message now =
     (case topics s topicName of
        None \<Rightarrow> (s, Inl TOPIC_NOT_FOUND)
      | Some topic \<Rightarrow>
          let publishedMessage = Event topicName message now;
              h1 = messageHistory topic @ [publishedMessage];
              h2 = (if of_nat (length h1) > ringBufferSize s then js_shift h1 else h1);
              s1 = s\<lparr>topics := (topics s)(topicName \<mapsto> topic\<lparr>messageHistory := h2\<rparr>)\<rparr>
          in (case fanout s1 (tsubscribers topic) publishedMessage now of
                (s2, failedDeliveries) \<Rightarrow>
                  let s3 = s2\<lparr>totalMessages := totalMessages s2 + 1\<rparr>;
                      s4 = (case topicStats s3 topicName of
                              None \<Rightarrow> s3
                            | Some st \<Rightarrow>
                                s3\<lparr>topicStats := (topicStats s3)(topicName \<mapsto>
                                     st\<lparr>st_messages := st_messages st + 1\<rparr>)\<rparr>);
                      size_now = (case topics s4 topicName of
                                    None \<Rightarrow> length (tsubscribers topic)
                                  | Some topic' \<Rightarrow> length (tsubscribers topic'))
                  in (s4, Inr (Published topicName
                                 (int size_now - int (length failedDeliveries))
                                 failedDeliveries))))"

section \<open>WebSocketHandler\<close>

text \<open>A field of an inbound frame is missing when \<^verbatim>\<open>!field\<close> holds: it is absent or
  the empty string.\<close>

definition missing :: "string option \<Rightarrow> bool" where
  "missing x = (case x of None \<Rightarrow> True | Some v \<Rightarrow> v = [])"

definition sendError ::
  "state \<Rightarrow> nat \<Rightarrow> string \<Rightarrow> string \<Rightarrow> string option \<Rightarrow> string \<Rightarrow> state" where
  "sendError s ws code msg requestId now =
     (case ws_send (sockets s ws) (ErrorFrame requestId code msg now) of
        None \<Rightarrow> s
      | Some t \<Rightarrow> s\<lparr>sockets := (sockets s)(ws := t)\<rparr>)"

text \<open>\<^verbatim>\<open>handleConnection\<close>: \<open>clientId\<close> is the value \<^verbatim>\<open>uuidv4()\<close> returned. The
  handlers it registers are \<open>onClose\<close> below.\<close>

definition handleConnection :: "state \<Rightarrow> nat \<Rightarrow> string \<Rightarrow> string \<Rightarrow> state" where
  "handleConnection s ws clientId now =
     (let t = (sockets s ws)\<lparr>ws_clientId := clientId, isAlive := True\<rparr>
      in (case ws_send t (InfoClient ''connected'' clientId now) of
            None \<Rightarrow> s\<lparr>sockets := (sockets s)(ws := t)\<rparr>
          | Some t' \<Rightarrow> s\<lparr>sockets := (sockets s)(ws := t')\<rparr>))"

text \<open>The \<^verbatim>\<open>'close'\<close> and \<^verbatim>\<open>'error'\<close> handlers of \<^verbatim>\<open>handleConnection\<close>: they call
  \<^verbatim>\<open>removeSubscriber\<close> with the identifier the server generated for the connection.\<close>

definition onClose :: "state \<Rightarrow> nat \<Rightarrow> state" where
  "onClose s ws = removeSubscriber s (ws_clientId (sockets s ws))"

text \<open>The transport closes: the library sets \<^verbatim>\<open>readyState\<close> to CLOSED (3) and emits
  \<^verbatim>\<open>'close'\<close>.\<close>

definition transportCloses :: "state \<Rightarrow> nat \<Rightarrow> state" where
  "transportCloses s ws =
     onClose (s\<lparr>sockets := (sockets s)(ws := (sockets s ws)\<lparr>readyState := 3\<rparr>)\<rparr>) ws"

text \<open>The \<^verbatim>\<open>catch\<close> blocks of the handlers map the message of the error to a code.\<close>

definition subscribe_error_code :: "error \<Rightarrow> string" where
  "subscribe_error_code e =
     (if error_message e = ''TOPIC_NOT_FOUND'' then ''TOPIC_NOT_FOUND'' else ''INTERNAL_ERROR'')"

definition unsubscribe_error_code :: "error \<Rightarrow> string" where
  "unsubscribe_error_code e =
     (if error_message e = ''SUBSCRIPTION_NOT_FOUND'' then ''TOPIC_NOT_FOUND''
      else ''INTERNAL_ERROR'')"

text \<open>The acknowledgement is sent inside the \<^verbatim>\<open>try\<close>: when that \<^verbatim>\<open>send\<close> throws, the
  \<^verbatim>\<open>catch\<close> block runs with the transport's error.\<close>

definition sendAck ::
  "state \<Rightarrow> nat \<Rightarrow> string option \<Rightarrow> string \<Rightarrow> string \<Rightarrow> (error \<Rightarrow> string) \<Rightarrow> state" where
  "sendAck s ws requestId topicName now code_of =
     (case ws_send (sockets s ws) (Ack requestId topicName now) of
        Some t \<Rightarrow> s\<lparr>sockets := (sockets s)(ws := t)\<rparr>
      | None \<Rightarrow>
          sendError s ws (code_of TransportError) (error_message TransportError) requestId now)"

definition handleSubscribe ::
  "state \<Rightarrow> nat \<Rightarrow> string option \<Rightarrow> string option \<Rightarrow> rat option \<Rightarrow> string option \<Rightarrow>
   string \<Rightarrow> state" where
  "handleSubscribe s ws topic_field client_id last_n request_id now =
     (if missing topic_field then
        sendError s ws ''BAD_REQUEST'' ''Missing topic field'' request_id now
      else if missing client_id then
        sendError s ws ''BAD_REQUEST'' ''Missing client_id field'' request_id now
      else
        (case subscribe s (the client_id) ws (the topic_field)
                (case last_n of None \<Rightarrow> 0 | Some n \<Rightarrow> n) now of
           (s', Inr _) \<Rightarrow> sendAck s' ws request_id (the topic_field) now subscribe_error_code
         | (s', Inl e) \<Rightarrow>
             sendError s' ws (subscribe_error_code e) (error_message e) request_id now))"

definition handleUnsubscribe ::
  "state \<Rightarrow> nat \<Rightarrow> string option \<Rightarrow> string option \<Rightarrow> string option \<Rightarrow> string \<Rightarrow> state" where
  "handleUnsubscribe s ws topic_field client_id request_id now =
     (if missing topic_field then
        sendError s ws ''BAD_REQUEST'' ''Missing topic field'' request_id now
      else if missing client_id then
        sendError s ws ''BAD_REQUEST'' ''Missing client_id field'' request_id now
      else
        (case unsubscribe s (the client_id) (the topic_field) of
           (s', Inr _) \<Rightarrow> sendAck s' ws request_id (the topic_field) now unsubscribe_error_code
         | (s', Inl e) \<Rightarrow>
             sendError s' ws (unsubscribe_error_code e) (error_message e) request_id now))"

section \<open>Runs of the broker\<close>

text \<open>The registry operations, and \<open>Environment\<close>: anything that happens to a transport
  outside the registry (it opens, closes, blocks, a handler writes a frame to it).\<close>

datatype op =
    CreateTopic string
  | DeleteTopic string string
  | Subscribe string nat string rat string
  | Unsubscribe string string
  | Publish string message string
  | RemoveSubscriber string
  | Environment nat transport

fun exec :: "state \<Rightarrow> op \<Rightarrow> state" where
  "exec s (CreateTopic n) = fst (createTopic s n)"
| "exec s (DeleteTopic n now) = fst (deleteTopic s n now)"
| "exec s (Subscribe c ws n lastN now) = fst (subscribe s c ws n lastN now)"
| "exec s (Unsubscribe c n) = fst (unsubscribe s c n)"
| "exec s (Publish n m now) = fst (publish s n m now)"
| "exec s (RemoveSubscriber c) = removeSubscriber s c"
| "exec s (Environment ws t) = s\<lparr>sockets := (sockets s)(ws := t)\<rparr>"

definition run :: "state \<Rightarrow> op list \<Rightarrow> state" where
  "run s ops = foldl exec s ops"

section \<open>The invariants of the specification\<close>

text \<open>I1: a client id is in a topic's subscriber set exactly when the topic's name is in
  that subscriber's topic set.\<close>

definition I1 :: "state \<Rightarrow> bool" where
  "I1 s = (\<forall>n t c sub. topics s n = Some t \<longrightarrow> subscribers s c = Some sub \<longrightarrow>
             (c \<in> set (tsubscribers t)) = (n \<in> set (sub_topics sub)))"

text \<open>I2: every client id in a topic's subscriber set has a subscriber record.\<close>

definition I2 :: "state \<Rightarrow> bool" where
  "I2 s = (\<forall>n t c. topics s n = Some t \<longrightarrow> c \<in> set (tsubscribers t) \<longrightarrow>
             subscribers s c \<noteq> None)"

text \<open>The cross references in both directions, with existence: what the registry keeps.\<close>

definition crossrefs :: "state \<Rightarrow> bool" where
  "crossrefs s =
     ((\<forall>c sub n. subscribers s c = Some sub \<longrightarrow> n \<in> set (sub_topics sub) \<longrightarrow>
         (\<exists>t. topics s n = Some t \<and> c \<in> set (tsubscribers t))) \<and>
      (\<forall>n t c. topics s n = Some t \<longrightarrow> c \<in> set (tsubscribers t) \<longrightarrow>
         (\<exists>sub. subscribers s c = Some sub \<and> n \<in> set (sub_topics sub))))"

text \<open>I4: no outbound queue is longer than the configured capacity.\<close>

definition I4 :: "state \<Rightarrow> bool" where
  "I4 s = (\<forall>c sub. subscribers s c = Some sub \<longrightarrow>
             of_nat (length (sub_queue sub)) \<le> maxQueueSize s)"

section \<open>Concrete configurations\<close>

definition no_options :: options where
  "no_options = \<lparr>opt_maxQueueSize = None, opt_ringBufferSize = None,
                  opt_backpressurePolicy = None\<rparr>"

definition open_transport :: "string \<Rightarrow> transport" where
  "open_transport cid = \<lparr>readyState = 1, sendFails = False, sent = [], closeArgs = None,
                          ws_clientId = cid, isAlive = True\<rparr>"

definition closed_transport :: "string \<Rightarrow> transport" where
  "closed_transport cid = \<lparr>readyState = 3, sendFails = False, sent = [], closeArgs = None,
                            ws_clientId = cid, isAlive = True\<rparr>"

text \<open>Two clients joined to \<open>orders\<close>; the transport of the first has closed since.\<close>

definition one_closed_one_open :: state where
  "one_closed_one_open = run (PubSubSystem no_options)
     [CreateTopic ''orders'',
      Environment 1 (open_transport ''u1''),
      Environment 2 (open_transport ''u2''),
      Subscribe ''a'' 1 ''orders'' 0 ''t1'',
      Subscribe ''b'' 2 ''orders'' 0 ''t2'',
      Environment 1 (closed_transport ''u1'')]"

text \<open>One client joined to \<open>orders\<close>, whose transport has closed since.\<close>

definition only_closed :: state where
  "only_closed = run (PubSubSystem no_options)
     [CreateTopic ''orders'',
      Environment 1 (open_transport ''u1''),
      Subscribe ''a'' 1 ''orders'' 0 ''t1'',
      Environment 1 (closed_transport ''u1'')]"

text \<open>One client joined to \<open>orders\<close> on an open transport.\<close>

definition one_subscriber :: state where
  "one_subscriber = run (PubSubSystem no_options)
     [CreateTopic ''orders'',
      Environment 1 (open_transport ''u1''),
      Subscribe ''a'' 1 ''orders'' 0 ''t1'']"

text \<open>Scenario 2 of the specification with a ring of two entries: three publishes.\<close>

definition ring_of_two :: options where
  "ring_of_two = \<lparr>opt_maxQueueSize = None, opt_ringBufferSize = Some 2,
                   opt_backpressurePolicy = None\<rparr>"

definition three_publishes :: "op list" where
  "three_publishes =
     [CreateTopic ''orders'',
      Publish ''orders'' ''U1'' ''t1'',
      Publish ''orders'' ''U2'' ''t2'',
      Publish ''orders'' ''U3'' ''t3'']"

text \<open>Scenario 5 of the specification: a queue of two entries, DROP_OLDEST, a transport
  that is open and refuses every send, two events pending.\<close>

definition queue_of_two :: options where
  "queue_of_two = \<lparr>opt_maxQueueSize = Some 2, opt_ringBufferSize = None,
                    opt_backpressurePolicy = Some ''DROP_OLDEST''\<rparr>"

definition blocked_transport :: "string \<Rightarrow> transport" where
  "blocked_transport cid = \<lparr>readyState = 1, sendFails = True, sent = [], closeArgs = None,
                             ws_clientId = cid, isAlive = True\<rparr>"

definition two_pending :: "op list" where
  "two_pending =
     [CreateTopic ''orders'',
      Environment 1 (blocked_transport ''u1''),
      Subscribe ''a'' 1 ''orders'' 0 ''t0'',
      Publish ''orders'' ''E1'' ''t1'',
      Publish ''orders'' ''E2'' ''t2'']"

text \<open>Client \<open>a\<close> is joined to \<open>news\<close>; the topic \<open>orders\<close> exists and \<open>a\<close> never
  joined it.\<close>

definition joined_elsewhere :: state where
  "joined_elsewhere = run (PubSubSystem no_options)
     [CreateTopic ''orders'',
      CreateTopic ''news'',
      Environment 1 (open_transport ''u1''),
      Subscribe ''a'' 1 ''news'' 0 ''t1'']"

text \<open>A connection that the server names \<open>u1\<close> subscribes as \<open>a\<close> to \<open>orders\<close>, then the
  transport closes.\<close>

definition connected_as_a :: state where
  "connected_as_a =
     handleSubscribe
       (handleConnection
          (run (PubSubSystem no_options)
             [CreateTopic ''orders'', Environment 1 (open_transport [])])
          1 ''u1'' ''t0'')
       1 (Some ''orders'') (Some ''a'') None (Some ''r1'') ''t1''"

text \<open>The same connection subscribing under the identifier the server gave it.\<close>

definition connected_as_u1 :: state where
  "connected_as_u1 =
     handleSubscribe
       (handleConnection
          (run (PubSubSystem no_options)
             [CreateTopic ''orders'', Environment 1 (open_transport [])])
          1 ''u1'' ''t0'')
       1 (Some ''orders'') (Some ''u1'') None (Some ''r1'') ''t1''"

text \<open>A system constructed with a ring buffer size of 0.\<close>

definition ring_of_zero :: options where
  "ring_of_zero = \<lparr>opt_maxQueueSize = None, opt_ringBufferSize = Some 0,
                    opt_backpressurePolicy = None\<rparr>"

definition one_publish_then_join :: "op list" where
  "one_publish_then_join =
     [CreateTopic ''orders'',
      Publish ''orders'' ''U1'' ''t1'',
      Environment 1 (open_transport ''u1''),
      Subscribe ''c'' 1 ''orders'' 1 ''t2'']"

definition three_publishes_then_connect :: "op list" where
  "three_publishes_then_connect =
     [CreateTopic ''orders'',
      Publish ''orders'' ''U1'' ''t1'',
      Publish ''orders'' ''U2'' ''t2'',
      Publish ''orders'' ''U3'' ''t3'',
      Environment 1 (open_transport ''u1'')]"

text \<open>Client \<open>a\<close> joined \<open>orders\<close> on transport 1, which has closed since; the client is
  back on transport 2, which is open.\<close>

definition reconnected :: state where
  "reconnected = run (PubSubSystem no_options)
     [CreateTopic ''orders'',
      Publish ''orders'' ''U1'' ''t1'',
      Environment 1 (open_transport ''u1''),
      Subscribe ''a'' 1 ''orders'' 0 ''t2'',
      Environment 1 (closed_transport ''u1''),
      Environment 2 (open_transport ''u2'')]"

text \<open>Client \<open>a\<close> is joined to \<open>news\<close> on transport 1; \<open>orders\<close> has one event in its
  history; transport 2 is open as well.\<close>

definition two_transports :: state where
  "two_transports = run (PubSubSystem no_options)
     [CreateTopic ''orders'',
      CreateTopic ''news'',
      Publish ''orders'' ''U1'' ''t1'',
      Environment 1 (open_transport ''u1''),
      Environment 2 (open_transport ''u2''),
      Subscribe ''a'' 1 ''news'' 0 ''t2'']"

text \<open>A capacity of one and three events to replay over a transport that accepts sends.\<close>

definition queue_of_one :: options where
  "queue_of_one = \<lparr>opt_maxQueueSize = Some 1, opt_ringBufferSize = None,
                    opt_backpressurePolicy = Some ''DISCONNECT''\<rparr>"

text \<open>Capacities that are negative or fractional, as \<^verbatim>\<open>--ring-buffer-size -1\<close> or a caller
  of the constructor can set them.\<close>

definition ring_of_minus_one :: options where
  "ring_of_minus_one = \<lparr>opt_maxQueueSize = None, opt_ringBufferSize = Some (- 1),
                         opt_backpressurePolicy = None\<rparr>"

definition ring_of_two_and_a_half :: options where
  "ring_of_two_and_a_half = \<lparr>opt_maxQueueSize = None, opt_ringBufferSize = Some (5 / 2),
                              opt_backpressurePolicy = None\<rparr>"

definition one_publish :: "op list" where
  "one_publish = [CreateTopic ''orders'', Publish ''orders'' ''U1'' ''t1'']"

definition queue_of_minus_five :: options where
  "queue_of_minus_five = \<lparr>opt_maxQueueSize = Some (- 5), opt_ringBufferSize = None,
                           opt_backpressurePolicy = Some ''DROP_OLDEST''\<rparr>"

definition queue_of_zero :: options where
  "queue_of_zero = \<lparr>opt_maxQueueSize = Some 0, opt_ringBufferSize = None,
                     opt_backpressurePolicy = Some ''DROP_OLDEST''\<rparr>"

definition queue_of_two_and_a_half :: options where
  "queue_of_two_and_a_half = \<lparr>opt_maxQueueSize = Some (5 / 2), opt_ringBufferSize = None,
                               opt_backpressurePolicy = Some ''DROP_OLDEST''\<rparr>"

text \<open>One, and three, events pending on a transport that is open and refuses every send.\<close>

definition one_pending :: "op list" where
  "one_pending =
     [CreateTopic ''orders'',
      Environment 1 (blocked_transport ''u1''),
      Subscribe ''a'' 1 ''orders'' 0 ''t0'',
      Publish ''orders'' ''E1'' ''t1'']"

definition three_pending :: "op list" where
  "three_pending =
     [CreateTopic ''orders'',
      Environment 1 (blocked_transport ''u1''),
      Subscribe ''a'' 1 ''orders'' 0 ''t0'',
      Publish ''orders'' ''E1'' ''t1'',
      Publish ''orders'' ''E2'' ''t2'',
      Publish ''orders'' ''E3'' ''t3'']"

text \<open>Two events pending at a capacity of two, and the transport has closed since.\<close>

definition two_pending_then_closed :: "op list" where
  "two_pending_then_closed =
     [CreateTopic ''orders'',
      Environment 1 (blocked_transport ''u1''),
      Subscribe ''a'' 1 ''orders'' 0 ''t0'',
      Publish ''orders'' ''E1'' ''t1'',
      Publish ''orders'' ''E2'' ''t2'',
      Environment 1 (closed_transport ''u1'')]"

text \<open>Client \<open>a\<close> is joined to \<open>news\<close> on a transport that is open and refuses every send,
  one event of \<open>news\<close> is pending, and \<open>orders\<close> has one event in its history.\<close>

definition one_pending_elsewhere :: "op list" where
  "one_pending_elsewhere =
     [CreateTopic ''orders'',
      CreateTopic ''news'',
      Publish ''orders'' ''U1'' ''t1'',
      Environment 1 (blocked_transport ''u1''),
      Subscribe ''a'' 1 ''news'' 0 ''t2'',
      Publish ''news'' ''N1'' ''t3'']"

text \<open>Client \<open>a\<close> is joined to \<open>orders\<close> with two events pending at a capacity of two; its
  transport accepts sends again; \<open>news\<close> has two events in its history.\<close>

definition full_queue_unblocked :: "op list" where
  "full_queue_unblocked =
     [CreateTopic ''orders'',
      CreateTopic ''news'',
      Publish ''news'' ''N1'' ''t1'',
      Publish ''news'' ''N2'' ''t2'',
      Environment 1 (blocked_transport ''u1''),
      Subscribe ''a'' 1 ''orders'' 0 ''t3'',
      Publish ''orders'' ''E1'' ''t4'',
      Publish ''orders'' ''E2'' ''t5'',
      Environment 1 (open_transport ''u1'')]"

section \<open>Intermediate states and relations used by the proofs\<close>

definition stable :: "state \<Rightarrow> state \<Rightarrow> bool" where
  "stable s s' =
     (maxQueueSize s' = maxQueueSize s \<and> ringBufferSize s' = ringBufferSize s \<and>
      backpressurePolicy s' = backpressurePolicy s \<and>
      (\<forall>n. map_option messageHistory (topics s' n) = map_option messageHistory (topics s n)) \<and>
      dom (topicStats s') = dom (topicStats s))"

text \<open>The state of \<open>subscribe\<close> after the cross references are added and before the
  statistics are touched.\<close>

definition joined :: "state \<Rightarrow> string \<Rightarrow> nat \<Rightarrow> string \<Rightarrow> topic \<Rightarrow> state" where
  "joined s c ws n tp =
     (let s1 = fst (registerSubscriber s c ws); sub = snd (registerSubscriber s c ws)
      in s1\<lparr>topics := (topics s1)(n \<mapsto> tp\<lparr>tsubscribers := set_add (tsubscribers tp) c\<rparr>),
            subscribers := (subscribers s1)(c \<mapsto>
              sub\<lparr>sub_topics := set_add (sub_topics sub) n\<rparr>)\<rparr>)"

definition countSubscribers :: "state \<Rightarrow> string \<Rightarrow> topic_stats \<Rightarrow> nat \<Rightarrow> state" where
  "countSubscribers s n st k = s\<lparr>topicStats := (topicStats s)(n \<mapsto> st\<lparr>st_subscribers := k\<rparr>)\<rparr>"

text \<open>The state of \<open>publish\<close> after the event is stored and before the fan-out.\<close>

definition stored :: "state \<Rightarrow> string \<Rightarrow> topic \<Rightarrow> frame \<Rightarrow> state" where
  "stored s n tp ev =
     s\<lparr>topics := (topics s)(n \<mapsto> tp\<lparr>messageHistory :=
         (if of_nat (length (messageHistory tp @ [ev])) > ringBufferSize s
          then js_shift (messageHistory tp @ [ev]) else messageHistory tp @ [ev])\<rparr>)\<rparr>"

text \<open>The length no queue exceeds under either policy, whatever number the capacity is:
  the capacity rounded up, and 1 when that is less. A queue shorter than the capacity
  takes one more entry; a queue at or over the capacity is shifted before the push.\<close>

definition queue_bound :: "state \<Rightarrow> nat" where
  "queue_bound s = nat (max 1 \<lceil>maxQueueSize s\<rceil>)"

definition queues_bounded :: "state \<Rightarrow> bool" where
  "queues_bounded s =
     (\<forall>c sub. subscribers s c = Some sub \<longrightarrow> length (sub_queue sub) \<le> queue_bound s)"

definition bounded_queues :: "state \<Rightarrow> bool" where
  "bounded_queues s =
     (queues_bounded s \<and>
      (backpressurePolicy s = ''DROP_OLDEST'' \<or> backpressurePolicy s = ''DISCONNECT''))"

text \<open>What a subscriber has been handed so far and what still waits for it: the frames
  accepted by its transport followed by its outbound queue.\<close>

definition outbound :: "state \<Rightarrow> string \<Rightarrow> frame list option" where
  "outbound s c =
     (case subscribers s c of
        None \<Rightarrow> None
      | Some sub \<Rightarrow> Some (sent (sockets s (sub_ws sub)) @ sub_queue sub))"

text \<open>A delivery to \<open>c\<close> leaves \<open>w\<close> alone as long as \<open>c\<close> is bound to \<open>w0\<close>, another
  transport.\<close>

definition bound_elsewhere :: "state \<Rightarrow> string \<Rightarrow> nat \<Rightarrow> nat \<Rightarrow> state \<Rightarrow> bool" where
  "bound_elsewhere s c w0 w s' =
     (sockets s' w = sockets s w \<and>
      (case subscribers s' c of None \<Rightarrow> True | Some sub' \<Rightarrow> sub_ws sub' = w0))"

text \<open>The transport the record of \<open>c\<close> is bound to once \<open>subscribe\<close> has registered it,
  and the queue the record has then.\<close>

definition bound_transport :: "state \<Rightarrow> string \<Rightarrow> nat \<Rightarrow> nat" where
  "bound_transport s c ws = (case subscribers s c of None \<Rightarrow> ws | Some sub \<Rightarrow> sub_ws sub)"

definition pending :: "state \<Rightarrow> string \<Rightarrow> frame list" where
  "pending s c = (case subscribers s c of None \<Rightarrow> [] | Some sub \<Rightarrow> sub_queue sub)"

text \<open>Every topic has its statistics entry.\<close>

definition stats_match :: "state \<Rightarrow> bool" where
  "stats_match s = (dom (topicStats s) = dom (topics s))"

text \<open>The record of \<open>c\<close> is bound to the transport \<open>w\<close>.\<close>

definition bound_to :: "state \<Rightarrow> nat \<Rightarrow> string \<Rightarrow> bool" where
  "bound_to s w c = (case subscribers s c of None \<Rightarrow> False | Some sub \<Rightarrow> sub_ws sub = w)"

text \<open>A transport after \<open>k\<close> copies of a frame were written to it, when it is open and
  accepts them.\<close>

definition written :: "transport \<Rightarrow> nat \<Rightarrow> frame \<Rightarrow> transport" where
  "written t k f =
     (if readyState t = 1 \<and> \<not> sendFails t then t\<lparr>sent := sent t @ replicate k f\<rparr> else t)"

text \<open>No event of \<open>k\<close> enqueued one after the other finds the queue at or over the
  capacity \<open>cap\<close>, when the queue has \<open>len\<close> entries, no entry is evicted, and the
  transport either refuses every send (the queue grows by one each time) or accepts them
  (the queue is empty after each enqueue).\<close>

definition fits :: "rat \<Rightarrow> bool \<Rightarrow> nat \<Rightarrow> nat \<Rightarrow> bool" where
  "fits cap refuses len k =
     (k = 0 \<or> (if refuses then of_nat (len + k - 1) < cap else of_nat len < cap))"

text \<open>The number of events \<^verbatim>\<open>messageHistory.slice(-lastN)\<close> copies from a history of
  \<open>len\<close> events when \<open>lastN\<close> is positive: the start index is truncated towards zero, so a
  \<open>lastN\<close> below 1 gives index 0 and the whole history.\<close>

definition replayed :: "rat \<Rightarrow> nat \<Rightarrow> nat" where
  "replayed lastN len = (if lastN < 1 then len else min (nat \<lfloor>lastN\<rfloor>) len)"

definition replay_fits :: "state \<Rightarrow> string \<Rightarrow> nat \<Rightarrow> nat \<Rightarrow> bool" where
  "replay_fits s c ws k =
     fits (maxQueueSize s) (sendFails (sockets s (bound_transport s c ws)))
       (length (pending s c)) k"

text \<open>Enqueueing one event onto a subscriber's mailbox as section 4.2 of the
  specification words it, for a transport that is open: under DROP_OLDEST a queue at
  capacity loses its head, the event is pushed, and the queue is drained to the transport
  unless the transport refuses the send. The mailbox is the pair of the frames the
  transport has accepted and the queue.\<close>

fun mailbox_enqueue ::
  "string \<Rightarrow> rat \<Rightarrow> bool \<Rightarrow> frame list \<times> frame list \<Rightarrow> frame \<Rightarrow> frame list \<times> frame list" where
  "mailbox_enqueue policy cap refuses (accepted, q) m =
     (if refuses
      then (accepted,
            (if cap \<le> of_nat (length q) \<and> policy = ''DROP_OLDEST'' then js_shift q else q) @ [m])
      else (accepted @
            (if cap \<le> of_nat (length q) \<and> policy = ''DROP_OLDEST'' then js_shift q else q) @ [m],
            []))"

section \<open>Publish streams and the history invariant\<close>

text \<open>The publish stream of a topic: the events of the publishes that found the topic,
  in order, since the topic was created.\<close>

fun note_op :: "state \<Rightarrow> op \<Rightarrow> (string \<Rightarrow> frame list) \<Rightarrow> (string \<Rightarrow> frame list)" where
  "note_op s (Publish n m now) g =
     (if topics s n \<noteq> None then g(n := g n @ [Event n m now]) else g)"
| "note_op s (CreateTopic n) g = (if topics s n = None then g(n := []) else g)"
| "note_op s _ g = g"

fun publishStream :: "state \<Rightarrow> op list \<Rightarrow> (string \<Rightarrow> frame list) \<Rightarrow> (string \<Rightarrow> frame list)" where
  "publishStream s [] g = g"
| "publishStream s (a # ops) g = publishStream (exec s a) ops (note_op s a g)"

text \<open>The suffix of length \<open>k\<close> of a list.\<close>

definition suffix_of_length :: "nat \<Rightarrow> 'a list \<Rightarrow> 'a list" where
  "suffix_of_length k xs = drop (length xs - k) xs"

text \<open>The number of events a ring of capacity \<open>c\<close> keeps: \<^verbatim>\<open>length > c\<close> is the test
  for the shift, so a fractional capacity keeps its integer part and a negative one keeps
  nothing.\<close>

definition kept :: "rat \<Rightarrow> nat" where
  "kept c = nat \<lfloor>c\<rfloor>"

text \<open>I3 and P2 for a capacity \<open>c\<close>: the history is the suffix of the publish stream of
  length min (number of publishes) (kept c), and it is bounded by \<open>c\<close> when \<open>c\<close> is not
  negative.\<close>

definition I3 :: "rat \<Rightarrow> state \<Rightarrow> (string \<Rightarrow> frame list) \<Rightarrow> bool" where
  "I3 c s g = (\<forall>n t. topics s n = Some t \<longrightarrow>
               messageHistory t = suffix_of_length (min (length (g n)) (kept c)) (g n) \<and>
               (0 \<le> c \<longrightarrow> of_nat (length (messageHistory t)) \<le> c))"

text \<open>The first half of I3 for the capacity the state runs with.\<close>

definition history_suffix :: "state \<Rightarrow> (string \<Rightarrow> frame list) \<Rightarrow> bool" where
  "history_suffix s g =
     (\<forall>n t. topics s n = Some t \<longrightarrow>
        messageHistory t = suffix_of_length (min (length (g n)) (kept (ringBufferSize s))) (g n))"

section \<open>Frame lemmas for the registry\<close>

lemma leaveTopic_frame [simp]:
  "subscribers (leaveTopic c s n) = subscribers s"
  "sockets (leaveTopic c s n) = sockets s"
  "maxQueueSize (leaveTopic c s n) = maxQueueSize s"
  "ringBufferSize (leaveTopic c s n) = ringBufferSize s"
  "backpressurePolicy (leaveTopic c s n) = backpressurePolicy s"
  by (simp_all add: leaveTopic_def Let_def split: option.splits)

lemma leaveTopic_topics:
  "topics (leaveTopic c s n) m =
     (if m = n then map_option (\<lambda>t. t\<lparr>tsubscribers := removeAll c (tsubscribers t)\<rparr>) (topics s m)
      else topics s m)"
  by (simp add: leaveTopic_def Let_def set_delete_def split: option.splits)

lemma leaveTopic_stats_dom: "dom (topicStats (leaveTopic c s n)) = dom (topicStats s)"
  by (auto simp: leaveTopic_def Let_def split: option.splits if_splits)

lemma foldl_leaveTopic_frame [simp]:
  "subscribers (foldl (leaveTopic c) s ns) = subscribers s"
  "sockets (foldl (leaveTopic c) s ns) = sockets s"
  "maxQueueSize (foldl (leaveTopic c) s ns) = maxQueueSize s"
  "ringBufferSize (foldl (leaveTopic c) s ns) = ringBufferSize s"
  "backpressurePolicy (foldl (leaveTopic c) s ns) = backpressurePolicy s"
  by (induction ns arbitrary: s; simp)+

lemma foldl_leaveTopic_topics:
  "topics (foldl (leaveTopic c) s ns) m =
     (if m \<in> set ns then map_option (\<lambda>t. t\<lparr>tsubscribers := removeAll c (tsubscribers t)\<rparr>) (topics s m)
      else topics s m)"
proof (induction ns arbitrary: s)
  case Nil
  show ?case by simp
next
  case (Cons n ns)
  show ?case
    by (cases "topics s m") (auto simp: Cons.IH leaveTopic_topics)
qed

lemma foldl_leaveTopic_stats_dom:
  "dom (topicStats (foldl (leaveTopic c) s ns)) = dom (topicStats s)"
  by (induction ns arbitrary: s) (simp_all add: leaveTopic_stats_dom)

lemma removeSubscriber_frame [simp]:
  "sockets (removeSubscriber s c) = sockets s"
  "maxQueueSize (removeSubscriber s c) = maxQueueSize s"
  "ringBufferSize (removeSubscriber s c) = ringBufferSize s"
  "backpressurePolicy (removeSubscriber s c) = backpressurePolicy s"
  by (simp_all add: removeSubscriber_def Let_def split: option.splits)

lemma removeSubscriber_subscribers:
  "subscribers (removeSubscriber s c) = (subscribers s)(c := None)"
  by (auto simp: removeSubscriber_def Let_def split: option.splits)

lemma removeSubscriber_topics:
  "topics (removeSubscriber s c) m =
     (case subscribers s c of
        None \<Rightarrow> topics s m
      | Some sub \<Rightarrow>
          if m \<in> set (sub_topics sub)
          then map_option (\<lambda>t. t\<lparr>tsubscribers := removeAll c (tsubscribers t)\<rparr>) (topics s m)
          else topics s m)"
  by (simp add: removeSubscriber_def Let_def foldl_leaveTopic_topics split: option.splits)

lemma removeSubscriber_stats_dom:
  "dom (topicStats (removeSubscriber s c)) = dom (topicStats s)"
  by (simp add: removeSubscriber_def Let_def foldl_leaveTopic_stats_dom split: option.splits)

lemma removeSubscriber_crossrefs:
  assumes "crossrefs s"
  shows "crossrefs (removeSubscriber s c)"
proof (cases "subscribers s c")
  case None
  then show ?thesis using assms by (simp add: removeSubscriber_def)
next
  case (Some sub)
  show ?thesis
    unfolding crossrefs_def
  proof (intro conjI allI impI)
    fix c' sub' n
    assume a: "subscribers (removeSubscriber s c) c' = Some sub'" "n \<in> set (sub_topics sub')"
    then have ne: "c' \<noteq> c" and old: "subscribers s c' = Some sub'"
      by (auto simp: removeSubscriber_subscribers split: if_splits)
    from assms old a(2) obtain t where t: "topics s n = Some t" "c' \<in> set (tsubscribers t)"
      unfolding crossrefs_def by blast
    then show "\<exists>t. topics (removeSubscriber s c) n = Some t \<and> c' \<in> set (tsubscribers t)"
      using ne Some by (auto simp: removeSubscriber_topics)
  next
    fix n t c'
    assume a: "topics (removeSubscriber s c) n = Some t" "c' \<in> set (tsubscribers t)"
    then obtain t0 where t0: "topics s n = Some t0" "c' \<in> set (tsubscribers t0)"
      and ne: "n \<in> set (sub_topics sub) \<longrightarrow> c' \<noteq> c"
      using Some by (auto simp: removeSubscriber_topics split: if_splits)
    from assms t0 obtain sub' where s': "subscribers s c' = Some sub'" "n \<in> set (sub_topics sub')"
      unfolding crossrefs_def by blast
    have "c' \<noteq> c" using ne s' Some by auto
    then show "\<exists>sub. subscribers (removeSubscriber s c) c' = Some sub \<and> n \<in> set (sub_topics sub)"
      using s' by (simp add: removeSubscriber_subscribers)
  qed
qed

section \<open>Draining and enqueueing\<close>

lemma drain_eq:
  "drain t q = (if sendFails t \<or> q = [] then (t, q) else (t\<lparr>sent := sent t @ q\<rparr>, []))"
proof (induction q arbitrary: t)
  case Nil
  show ?case by simp
next
  case (Cons m q)
  show ?case
    by (simp add: ws_send_def Cons.IH)
qed

lemma drain_length: "length (snd (drain t q)) \<le> length q"
  by (simp add: drain_eq)

lemma drain_readyState [simp]: "readyState (fst (drain t q)) = readyState t"
  by (simp add: drain_eq)

lemma drain_stream: "sent (fst (drain t q)) @ snd (drain t q) = sent t @ q"
  by (simp add: drain_eq)

lemma pushAndFlush_open:
  assumes "readyState (sockets s (sub_ws sub)) = 1"
  shows "pushAndFlush s c sub q m =
           s\<lparr>sockets := (sockets s)(sub_ws sub := fst (drain (sockets s (sub_ws sub)) (q @ [m]))),
             subscribers := (subscribers s)(c \<mapsto>
               sub\<lparr>sub_queue := snd (drain (sockets s (sub_ws sub)) (q @ [m]))\<rparr>)\<rparr>"
  using assms
  by (simp add: pushAndFlush_def flushSubscriberQueue_def split: prod.splits)

text \<open>The three ways \<open>enqueueMessage\<close> can end.\<close>

lemma enqueueMessage_cases:
  obtains
    (absent) "subscribers s c = None" "enqueueMessage s c m now = (s, Inl SUBSCRIBER_NOT_FOUND)"
  | (removed) sk e where
      "enqueueMessage s c m now = (removeSubscriber (s\<lparr>sockets := sk\<rparr>) c, Inl e)"
  | (pushed) sub q where
      "subscribers s c = Some sub" "readyState (sockets s (sub_ws sub)) = 1"
      "q = (if maxQueueSize s \<le> of_nat (length (sub_queue sub)) \<and> backpressurePolicy s = ''DROP_OLDEST''
            then js_shift (sub_queue sub) else sub_queue sub)"
      "maxQueueSize s \<le> of_nat (length (sub_queue sub)) \<longrightarrow> backpressurePolicy s \<noteq> ''DISCONNECT''"
      "enqueueMessage s c m now =
         (s\<lparr>sockets := (sockets s)(sub_ws sub := fst (drain (sockets s (sub_ws sub)) (q @ [m]))),
            subscribers := (subscribers s)(c \<mapsto>
              sub\<lparr>sub_queue := snd (drain (sockets s (sub_ws sub)) (q @ [m]))\<rparr>)\<rparr>, Inr ())"
proof (cases "subscribers s c")
  case None
  then show ?thesis using absent by (simp add: enqueueMessage_def)
next
  case (Some sub)
  show ?thesis
  proof (cases "readyState (sockets s (sub_ws sub)) = 1")
    case False
    have "s\<lparr>sockets := sockets s\<rparr> = s" by simp
    then have "enqueueMessage s c m now =
        (removeSubscriber (s\<lparr>sockets := sockets s\<rparr>) c, Inl SUBSCRIBER_DISCONNECTED)"
      using Some False by (simp add: enqueueMessage_def)
    then show ?thesis using removed by blast
  next
    case True
    show ?thesis
    proof (cases "maxQueueSize s \<le> of_nat (length (sub_queue sub)) \<and> backpressurePolicy s = ''DISCONNECT''")
      case True
      then show ?thesis using removed Some \<open>readyState (sockets s (sub_ws sub)) = 1\<close>
        by (simp add: enqueueMessage_def)
    next
      case False
      then show ?thesis
        using pushed[of sub] Some \<open>readyState (sockets s (sub_ws sub)) = 1\<close>
        by (auto simp: enqueueMessage_def pushAndFlush_open)
    qed
  qed
qed

section \<open>What a delivery leaves alone\<close>

lemma stable_refl [simp]: "stable s s"
  by (simp add: stable_def)

lemma stable_trans: "stable s s' \<Longrightarrow> stable s' s'' \<Longrightarrow> stable s s''"
  by (simp add: stable_def)

lemma stable_sockets [simp]: "stable s (s\<lparr>sockets := sk\<rparr>)"
  by (simp add: stable_def)

lemma removeSubscriber_stable: "stable s (removeSubscriber s c)"
  by (auto simp: stable_def removeSubscriber_topics removeSubscriber_stats_dom
      option.map_comp comp_def split: option.splits)

lemma enqueueMessage_stable: "stable s (fst (enqueueMessage s c m now))"
proof (cases rule: enqueueMessage_cases[of s c m now])
  case absent
  then show ?thesis by simp
next
  case (removed sk e)
  have "stable s (s\<lparr>sockets := sk\<rparr>)" by simp
  then show ?thesis
    using removed removeSubscriber_stable[of "s\<lparr>sockets := sk\<rparr>" c] stable_trans by fastforce
next
  case (pushed sub q)
  then show ?thesis by (simp add: stable_def)
qed

lemma crossrefs_sockets [simp]: "crossrefs (s\<lparr>sockets := sk\<rparr>) = crossrefs s"
  by (simp add: crossrefs_def)

text \<open>\<open>crossrefs\<close> looks only at the subscriber sets of the topics and the topic sets of
  the subscribers.\<close>

lemma crossrefs_view_imp:
  assumes t: "\<And>n. map_option tsubscribers (topics s' n) = map_option tsubscribers (topics s n)"
    and u: "\<And>c. map_option sub_topics (subscribers s' c) = map_option sub_topics (subscribers s c)"
    and cr: "crossrefs s"
  shows "crossrefs s'"
proof -
  have T: "\<exists>t. topics s n = Some t \<and> tsubscribers t = tsubscribers t'"
    if "topics s' n = Some t'" for n t'
    using t[of n] that by (cases "topics s n") auto
  have T': "\<exists>t'. topics s' n = Some t' \<and> tsubscribers t' = tsubscribers t"
    if "topics s n = Some t" for n t
    using t[of n] that by (cases "topics s' n") auto
  have U: "\<exists>sub. subscribers s c = Some sub \<and> sub_topics sub = sub_topics sub'"
    if "subscribers s' c = Some sub'" for c sub'
    using u[of c] that by (cases "subscribers s c") auto
  have U': "\<exists>sub'. subscribers s' c = Some sub' \<and> sub_topics sub' = sub_topics sub"
    if "subscribers s c = Some sub" for c sub
    using u[of c] that by (cases "subscribers s' c") auto
  show ?thesis
    unfolding crossrefs_def
  proof (intro conjI allI impI)
    fix c sub' n
    assume a: "subscribers s' c = Some sub'" "n \<in> set (sub_topics sub')"
    from U[OF a(1)] obtain sub where sub: "subscribers s c = Some sub" "sub_topics sub = sub_topics sub'"
      by blast
    with cr a(2) obtain t where tt: "topics s n = Some t" "c \<in> set (tsubscribers t)"
      unfolding crossrefs_def by metis
    from T'[OF tt(1)] tt(2) show "\<exists>t. topics s' n = Some t \<and> c \<in> set (tsubscribers t)"
      by auto
  next
    fix n t' c
    assume a: "topics s' n = Some t'" "c \<in> set (tsubscribers t')"
    from T[OF a(1)] obtain t where tt: "topics s n = Some t" "tsubscribers t = tsubscribers t'"
      by blast
    with cr a(2) obtain sub where sub: "subscribers s c = Some sub" "n \<in> set (sub_topics sub)"
      unfolding crossrefs_def by metis
    from U'[OF sub(1)] sub(2) show "\<exists>sub. subscribers s' c = Some sub \<and> n \<in> set (sub_topics sub)"
      by auto
  qed
qed

lemma enqueueMessage_crossrefs:
  assumes "crossrefs s"
  shows "crossrefs (fst (enqueueMessage s c m now))"
proof (cases rule: enqueueMessage_cases[of s c m now])
  case absent
  then show ?thesis using assms by simp
next
  case (removed sk e)
  then show ?thesis using assms removeSubscriber_crossrefs[of "s\<lparr>sockets := sk\<rparr>" c] by simp
next
  case (pushed sub q)
  show ?thesis
    unfolding pushed(5) fst_conv
    by (rule crossrefs_view_imp[OF _ _ assms]) (simp_all add: pushed(1))
qed

lemma replay_preserves:
  assumes step: "\<And>s m. P s \<Longrightarrow> P (fst (enqueueMessage s c m now))"
    and "P s"
  shows "P (fst (replay s c ms now))"
  using \<open>P s\<close>
proof (induction ms arbitrary: s)
  case Nil
  then show ?case by simp
next
  case (Cons m ms)
  obtain s' r where e: "enqueueMessage s c m now = (s', r)" by (cases "enqueueMessage s c m now")
  then have "P s'" using step[OF Cons.prems, of m] by simp
  then show ?case using e Cons.IH[of s'] by (cases r) simp_all
qed

lemma fanout_preserves:
  assumes step: "\<And>s c m. P s \<Longrightarrow> P (fst (enqueueMessage s c m now))"
    and "P s"
  shows "P (fst (fanout s cs msg now))"
  using \<open>P s\<close>
proof (induction cs arbitrary: s)
  case Nil
  then show ?case by simp
next
  case (Cons c cs)
  obtain s' r where e: "enqueueMessage s c msg now = (s', r)" by (cases "enqueueMessage s c msg now")
  then have "P s'" using step[OF Cons.prems, of c msg] by simp
  then show ?case using e Cons.IH[of s'] by (cases r) (auto split: prod.splits)
qed

section \<open>The cross references survive every operation\<close>

lemma createTopic_crossrefs:
  assumes "crossrefs s"
  shows "crossrefs (fst (createTopic s n))"
proof (cases "topics s n")
  case (Some t)
  then show ?thesis using assms by (simp add: createTopic_def)
next
  case None
  have no: "n \<notin> set (sub_topics sub)" if "subscribers s c = Some sub" for c sub
    using assms that None unfolding crossrefs_def by fastforce
  show ?thesis
    using assms None no unfolding crossrefs_def
    by (auto simp: createTopic_def)
qed

lemma notifyDeleted_frame [simp]:
  "topics (notifyDeleted f s c) = topics s"
  "subscribers (notifyDeleted f s c) = subscribers s"
  "topicStats (notifyDeleted f s c) = topicStats s"
  "maxQueueSize (notifyDeleted f s c) = maxQueueSize s"
  "ringBufferSize (notifyDeleted f s c) = ringBufferSize s"
  "backpressurePolicy (notifyDeleted f s c) = backpressurePolicy s"
  by (simp_all add: notifyDeleted_def split: option.splits)

lemma foldl_notifyDeleted_frame [simp]:
  "topics (foldl (notifyDeleted f) s cs) = topics s"
  "subscribers (foldl (notifyDeleted f) s cs) = subscribers s"
  "topicStats (foldl (notifyDeleted f) s cs) = topicStats s"
  "maxQueueSize (foldl (notifyDeleted f) s cs) = maxQueueSize s"
  "ringBufferSize (foldl (notifyDeleted f) s cs) = ringBufferSize s"
  "backpressurePolicy (foldl (notifyDeleted f) s cs) = backpressurePolicy s"
  by (induction cs arbitrary: s; simp)+

lemma forgetTopic_frame [simp]:
  "topics (forgetTopic n s c) = topics s"
  "sockets (forgetTopic n s c) = sockets s"
  "topicStats (forgetTopic n s c) = topicStats s"
  "maxQueueSize (forgetTopic n s c) = maxQueueSize s"
  "ringBufferSize (forgetTopic n s c) = ringBufferSize s"
  "backpressurePolicy (forgetTopic n s c) = backpressurePolicy s"
  by (simp_all add: forgetTopic_def split: option.splits)

lemma foldl_forgetTopic_frame [simp]:
  "topics (foldl (forgetTopic n) s cs) = topics s"
  "sockets (foldl (forgetTopic n) s cs) = sockets s"
  "topicStats (foldl (forgetTopic n) s cs) = topicStats s"
  "maxQueueSize (foldl (forgetTopic n) s cs) = maxQueueSize s"
  "ringBufferSize (foldl (forgetTopic n) s cs) = ringBufferSize s"
  "backpressurePolicy (foldl (forgetTopic n) s cs) = backpressurePolicy s"
  by (induction cs arbitrary: s; simp)+

lemma forgetTopic_subscribers:
  "subscribers (forgetTopic n s c) c' =
     (if c' = c
      then map_option (\<lambda>sub. sub\<lparr>sub_topics := removeAll n (sub_topics sub)\<rparr>) (subscribers s c')
      else subscribers s c')"
  by (simp add: forgetTopic_def set_delete_def split: option.splits)

lemma foldl_forgetTopic_subscribers:
  "subscribers (foldl (forgetTopic n) s cs) c' =
     (if c' \<in> set cs
      then map_option (\<lambda>sub. sub\<lparr>sub_topics := removeAll n (sub_topics sub)\<rparr>) (subscribers s c')
      else subscribers s c')"
proof (induction cs arbitrary: s)
  case Nil
  show ?case by simp
next
  case (Cons c cs)
  show ?case
    by (cases "subscribers s c'") (auto simp: Cons.IH forgetTopic_subscribers)
qed

lemma deleteTopic_crossrefs:
  assumes "crossrefs s"
  shows "crossrefs (fst (deleteTopic s n now))"
proof (cases "topics s n")
  case None
  then show ?thesis using assms by (simp add: deleteTopic_def)
next
  case (Some tp)
  define s' where "s' = fst (deleteTopic s n now)"
  have tp': "topics s' m = (if m = n then None else topics s m)" for m
    using Some by (simp add: s'_def deleteTopic_def Let_def)
  have sb': "subscribers s' c =
       (if c \<in> set (tsubscribers tp)
        then map_option (\<lambda>sub. sub\<lparr>sub_topics := removeAll n (sub_topics sub)\<rparr>) (subscribers s c)
        else subscribers s c)" for c
    using Some by (simp add: s'_def deleteTopic_def Let_def foldl_forgetTopic_subscribers)
  have "crossrefs s'"
    unfolding crossrefs_def
  proof (intro conjI allI impI)
    fix c sub' m
    assume a: "subscribers s' c = Some sub'" "m \<in> set (sub_topics sub')"
    then obtain sub where sub: "subscribers s c = Some sub" "m \<in> set (sub_topics sub)"
      and ne: "c \<in> set (tsubscribers tp) \<longrightarrow> m \<noteq> n"
      by (auto simp: sb' split: if_splits)
    from assms sub obtain t where t: "topics s m = Some t" "c \<in> set (tsubscribers t)"
      unfolding crossrefs_def by blast
    have "m \<noteq> n" using ne t Some by auto
    then show "\<exists>t. topics s' m = Some t \<and> c \<in> set (tsubscribers t)"
      using t by (simp add: tp')
  next
    fix m t c
    assume a: "topics s' m = Some t" "c \<in> set (tsubscribers t)"
    then have mn: "m \<noteq> n" and t: "topics s m = Some t"
      by (auto simp: tp' split: if_splits)
    from assms t a(2) obtain sub where sub: "subscribers s c = Some sub" "m \<in> set (sub_topics sub)"
      unfolding crossrefs_def by blast
    then show "\<exists>sub. subscribers s' c = Some sub \<and> m \<in> set (sub_topics sub)"
      using mn by (auto simp: sb')
  qed
  then show ?thesis by (simp add: s'_def)
qed

lemma unsubscribe_crossrefs:
  assumes "crossrefs s"
  shows "crossrefs (fst (unsubscribe s c n))"
proof (cases "topics s n")
  case None
  then show ?thesis using assms by (simp add: unsubscribe_def)
next
  case (Some tp)
  note tp = Some
  show ?thesis
  proof (cases "subscribers s c")
    case None
    then show ?thesis using assms tp by (simp add: unsubscribe_def)
  next
    case (Some sub)
    define s' where "s' = fst (unsubscribe s c n)"
    have tp': "topics s' m =
        (if m = n then Some (tp\<lparr>tsubscribers := removeAll c (tsubscribers tp)\<rparr>) else topics s m)" for m
      using Some tp
      by (simp add: s'_def unsubscribe_def Let_def set_delete_def split: option.splits)
    have sb': "subscribers s' c' =
        (if c' = c then Some (sub\<lparr>sub_topics := removeAll n (sub_topics sub)\<rparr>) else subscribers s c')" for c'
      using Some tp
      by (simp add: s'_def unsubscribe_def Let_def set_delete_def split: option.splits)
    have "crossrefs s'"
      unfolding crossrefs_def
    proof (intro conjI allI impI)
      fix c' sub' m
      assume a: "subscribers s' c' = Some sub'" "m \<in> set (sub_topics sub')"
      then obtain sub0 where sub0: "subscribers s c' = Some sub0" "m \<in> set (sub_topics sub0)"
        and ne: "c' = c \<longrightarrow> m \<noteq> n"
        using Some by (auto simp: sb' split: if_splits)
      from assms sub0 obtain t where t: "topics s m = Some t" "c' \<in> set (tsubscribers t)"
        unfolding crossrefs_def by blast
      then show "\<exists>t. topics s' m = Some t \<and> c' \<in> set (tsubscribers t)"
        using ne tp by (auto simp: tp')
    next
      fix m t c'
      assume a: "topics s' m = Some t" "c' \<in> set (tsubscribers t)"
      then obtain t0 where t0: "topics s m = Some t0" "c' \<in> set (tsubscribers t0)"
        and ne: "m = n \<longrightarrow> c' \<noteq> c"
        using tp by (auto simp: tp' split: if_splits)
      from assms t0 obtain sub0 where sub0: "subscribers s c' = Some sub0" "m \<in> set (sub_topics sub0)"
        unfolding crossrefs_def by blast
      then show "\<exists>sub. subscribers s' c' = Some sub \<and> m \<in> set (sub_topics sub)"
        using ne Some by (auto simp: sb')
    qed
    then show ?thesis by (simp add: s'_def)
  qed
qed

lemma subscribe_eq:
  assumes "topics s n = Some tp"
  shows "subscribe s c ws n lastN now =
     (case topicStats s n of
        None \<Rightarrow> (joined s c ws n tp, Inl TypeError)
      | Some st \<Rightarrow>
          let s3 = countSubscribers (joined s c ws n tp) n st (length (set_add (tsubscribers tp) c))
          in if lastN > 0 \<and> messageHistory tp \<noteq> [] then
               (case replay s3 c (js_slice (messageHistory tp) (- lastN)) now of
                  (s4, Inl e) \<Rightarrow> (s4, Inl e)
                | (s4, Inr _) \<Rightarrow> (s4, Inr (Subscribed n c)))
             else (s3, Inr (Subscribed n c)))"
  using assms
  by (cases "subscribers s c")
     (auto simp: subscribe_def joined_def countSubscribers_def registerSubscriber_def Let_def
        split: option.splits)

lemma joined_topics:
  "topics (joined s c ws n tp) m =
     (if m = n then Some (tp\<lparr>tsubscribers := set_add (tsubscribers tp) c\<rparr>) else topics s m)"
  by (simp add: joined_def registerSubscriber_def Let_def split: option.splits)

lemma joined_subscribers:
  "subscribers (joined s c ws n tp) c' =
     (if c' = c then
        Some (case subscribers s c of
                None \<Rightarrow> \<lparr>sub_ws = ws, sub_topics = set_add [] n, sub_queue = []\<rparr>
              | Some sub \<Rightarrow> sub\<lparr>sub_topics := set_add (sub_topics sub) n\<rparr>)
      else subscribers s c')"
  by (simp add: joined_def registerSubscriber_def Let_def split: option.splits)

lemma joined_frame [simp]:
  "sockets (joined s c ws n tp) = sockets s"
  "topicStats (joined s c ws n tp) = topicStats s"
  "maxQueueSize (joined s c ws n tp) = maxQueueSize s"
  "ringBufferSize (joined s c ws n tp) = ringBufferSize s"
  "backpressurePolicy (joined s c ws n tp) = backpressurePolicy s"
  by (simp_all add: joined_def registerSubscriber_def Let_def split: option.splits)

lemma countSubscribers_frame [simp]:
  "topics (countSubscribers s n st k) = topics s"
  "subscribers (countSubscribers s n st k) = subscribers s"
  "sockets (countSubscribers s n st k) = sockets s"
  "maxQueueSize (countSubscribers s n st k) = maxQueueSize s"
  "ringBufferSize (countSubscribers s n st k) = ringBufferSize s"
  "backpressurePolicy (countSubscribers s n st k) = backpressurePolicy s"
  by (simp_all add: countSubscribers_def)

lemma set_set_add [simp]: "set (set_add xs x) = insert x (set xs)"
  by (auto simp: set_add_def)

lemma joined_crossrefs:
  assumes cr: "crossrefs s" and tp: "topics s n = Some tp"
  shows "crossrefs (joined s c ws n tp)"
  unfolding crossrefs_def
proof (intro conjI allI impI)
  fix c' sub' m
  assume a: "subscribers (joined s c ws n tp) c' = Some sub'" "m \<in> set (sub_topics sub')"
  show "\<exists>t. topics (joined s c ws n tp) m = Some t \<and> c' \<in> set (tsubscribers t)"
  proof (cases "c' = c \<and> m = n")
    case True
    then show ?thesis by (simp add: joined_topics)
  next
    case False
    then obtain sub where sub: "subscribers s c' = Some sub" "m \<in> set (sub_topics sub)"
      using a by (auto simp: joined_subscribers split: if_splits option.splits)
    with cr obtain t where t: "topics s m = Some t" "c' \<in> set (tsubscribers t)"
      unfolding crossrefs_def by blast
    then show ?thesis using tp by (auto simp: joined_topics)
  qed
next
  fix m t c'
  assume a: "topics (joined s c ws n tp) m = Some t" "c' \<in> set (tsubscribers t)"
  show "\<exists>sub. subscribers (joined s c ws n tp) c' = Some sub \<and> m \<in> set (sub_topics sub)"
  proof (cases "c' = c \<and> m = n")
    case True
    then show ?thesis by (simp add: joined_subscribers split: option.splits)
  next
    case False
    then obtain t0 where t0: "topics s m = Some t0" "c' \<in> set (tsubscribers t0)"
      using a tp by (auto simp: joined_topics split: if_splits)
    with cr obtain sub where sub: "subscribers s c' = Some sub" "m \<in> set (sub_topics sub)"
      unfolding crossrefs_def by blast
    then show ?thesis by (auto simp: joined_subscribers split: option.splits)
  qed
qed

lemma crossrefs_countSubscribers [simp]:
  "crossrefs (countSubscribers s n st k) = crossrefs s"
  by (simp add: crossrefs_def)

lemma subscribe_crossrefs:
  assumes "crossrefs s"
  shows "crossrefs (fst (subscribe s c ws n lastN now))"
proof (cases "topics s n")
  case None
  then show ?thesis using assms by (simp add: subscribe_def)
next
  case (Some tp)
  have j: "crossrefs (joined s c ws n tp)" by (rule joined_crossrefs[OF assms Some])
  show ?thesis
  proof (cases "topicStats s n")
    case None
    then show ?thesis using j by (simp add: subscribe_eq[OF Some])
  next
    case (Some st)
    define s3 where "s3 = countSubscribers (joined s c ws n tp) n st (length (set_add (tsubscribers tp) c))"
    have s3: "crossrefs s3" using j by (simp add: s3_def)
    have r: "crossrefs (fst (replay s3 c ms now))" for ms
      by (rule replay_preserves[where P = crossrefs, OF enqueueMessage_crossrefs s3])
    show ?thesis
      using s3 r[of "js_slice (messageHistory tp) (- lastN)"]
      by (auto simp: subscribe_eq[OF \<open>topics s n = Some tp\<close>] Some Let_def s3_def[symmetric]
          split: prod.splits sum.splits)
  qed
qed

lemma publish_fields:
  fixes m now
  assumes "topics s n = Some tp"
  defines "F \<equiv> fst (fanout (stored s n tp (Event n m now)) (tsubscribers tp) (Event n m now) now)"
  shows "topics (fst (publish s n m now)) = topics F"
    and "subscribers (fst (publish s n m now)) = subscribers F"
    and "sockets (fst (publish s n m now)) = sockets F"
    and "maxQueueSize (fst (publish s n m now)) = maxQueueSize F"
    and "ringBufferSize (fst (publish s n m now)) = ringBufferSize F"
    and "backpressurePolicy (fst (publish s n m now)) = backpressurePolicy F"
    and "dom (topicStats (fst (publish s n m now))) = dom (topicStats F)"
  using assms(1) unfolding F_def
  by (auto simp: publish_def stored_def Let_def split: prod.splits option.splits)

lemma publish_crossrefs:
  assumes "crossrefs s"
  shows "crossrefs (fst (publish s n m now))"
proof (cases "topics s n")
  case None
  then show ?thesis using assms by (simp add: publish_def)
next
  case (Some tp)
  define ev where "ev = Event n m now"
  have st: "crossrefs (stored s n tp ev)"
    by (rule crossrefs_view_imp[OF _ _ assms]) (simp_all add: stored_def Some)
  have "crossrefs (fst (fanout (stored s n tp ev) (tsubscribers tp) ev now))"
    by (rule fanout_preserves[where P = crossrefs, OF enqueueMessage_crossrefs st])
  then show ?thesis
    by (rule crossrefs_view_imp[rotated 2]) (simp_all add: publish_fields[OF Some] ev_def)
qed

lemma exec_crossrefs: "crossrefs s \<Longrightarrow> crossrefs (exec s a)"
  by (cases a)
     (simp_all add: createTopic_crossrefs deleteTopic_crossrefs subscribe_crossrefs
        unsubscribe_crossrefs publish_crossrefs removeSubscriber_crossrefs)

lemma run_preserves:
  assumes "\<And>s a. P s \<Longrightarrow> P (exec s a)" and "P s"
  shows "P (run s ops)"
  using \<open>P s\<close> unfolding run_def
  by (induction ops arbitrary: s) (simp_all add: assms(1))

lemma PubSubSystem_crossrefs: "crossrefs (PubSubSystem opts)"
  by (simp add: crossrefs_def PubSubSystem_def)

lemma run_crossrefs: "crossrefs (run (PubSubSystem opts) ops)"
  by (rule run_preserves[where P = crossrefs, OF exec_crossrefs PubSubSystem_crossrefs])

lemma crossrefs_I1: "crossrefs s \<Longrightarrow> I1 s"
  unfolding crossrefs_def I1_def by (metis option.inject)

lemma crossrefs_I2: "crossrefs s \<Longrightarrow> I2 s"
  unfolding crossrefs_def I2_def by (metis option.distinct(1))

text \<open>I2 in the sense of the registry: a client id in a subscriber set always has a
  record. Whether the transport of that record is still open is another matter.\<close>

lemma run_I2: "I2 (run (PubSubSystem opts) ops)"
  by (rule crossrefs_I2[OF run_crossrefs])

section \<open>Histories\<close>

lemma stable_suffix:
  assumes "stable s s'" "history_suffix s g"
  shows "history_suffix s' g"
  unfolding history_suffix_def
proof (intro allI impI)
  fix n t'
  assume a: "topics s' n = Some t'"
  have "map_option messageHistory (topics s' n) = map_option messageHistory (topics s n)"
    using assms(1) by (simp add: stable_def)
  then obtain t where t: "topics s n = Some t" "messageHistory t = messageHistory t'"
    using a by (cases "topics s n") auto
  have "ringBufferSize s' = ringBufferSize s" using assms(1) by (simp add: stable_def)
  then show "messageHistory t' =
       suffix_of_length (min (length (g n)) (kept (ringBufferSize s'))) (g n)"
    using assms(2) t unfolding history_suffix_def by metis
qed

lemma replay_stable: "stable s (fst (replay s c ms now))"
proof (rule replay_preserves[where P = "stable s"])
  show "stable s (fst (enqueueMessage s' c m now))" if "stable s s'" for s' m
    using that enqueueMessage_stable stable_trans by blast
qed simp

lemma fanout_stable: "stable s (fst (fanout s cs ev now))"
proof (rule fanout_preserves[where P = "stable s"])
  show "stable s (fst (enqueueMessage s' c m now))" if "stable s s'" for s' c m
    using that enqueueMessage_stable stable_trans by blast
qed simp

lemma joined_stable: "topics s n = Some tp \<Longrightarrow> stable s (joined s c ws n tp)"
  by (simp add: stable_def joined_topics)

lemma countSubscribers_stable: "topicStats s n = Some st0 \<Longrightarrow> stable s (countSubscribers s n st k)"
  by (auto simp: stable_def countSubscribers_def)

lemma subscribe_stable: "stable s (fst (subscribe s c ws n lastN now))"
proof (cases "topics s n")
  case None
  then show ?thesis by (simp add: subscribe_def)
next
  case (Some tp)
  note j = joined_stable[OF Some, of c ws]
  show ?thesis
  proof (cases "topicStats s n")
    case None
    then show ?thesis using j by (simp add: subscribe_eq[OF Some])
  next
    case (Some st)
    define s3 where "s3 = countSubscribers (joined s c ws n tp) n st (length (set_add (tsubscribers tp) c))"
    have s3: "stable s s3"
      unfolding s3_def
      by (rule stable_trans[OF j countSubscribers_stable]) (simp add: Some)
    have "stable s (fst (replay s3 c ms now))" for ms
      using s3 replay_stable stable_trans by blast
    from this[of "js_slice (messageHistory tp) (- lastN)"] s3 show ?thesis
      by (auto simp: subscribe_eq[OF \<open>topics s n = Some tp\<close>] Some Let_def s3_def[symmetric]
          split: prod.splits sum.splits)
  qed
qed

lemma unsubscribe_stable: "stable s (fst (unsubscribe s c n))"
  by (auto simp: stable_def unsubscribe_def Let_def split: option.splits)

lemma js_shift_tl: "js_shift xs = tl xs"
  by (cases xs) (simp_all add: js_shift_def)

lemma suffix_length [simp]: "length (suffix_of_length (min (length g) r) g) \<le> r"
  by (simp add: suffix_of_length_def)

lemma suffix_push:
  assumes "h = suffix_of_length (min (length g) r) g"
  shows "(if length (h @ [e]) > r then js_shift (h @ [e]) else h @ [e]) =
         suffix_of_length (min (length (g @ [e])) r) (g @ [e])"
proof (cases "length g < r")
  case True
  then show ?thesis using assms by (simp add: suffix_of_length_def min_def)
next
  case False
  then have h: "h = drop (length g - r) g" "length h = r"
    using assms by (simp_all add: suffix_of_length_def min_def)
  have "h @ [e] = drop (length g - r) (g @ [e])"
    using h(1) by simp
  then have "js_shift (h @ [e]) = tl (drop (length g - r) (g @ [e]))"
    by (simp only: js_shift_tl)
  also have "\<dots> = drop (Suc (length g - r)) (g @ [e])"
    by (simp only: drop_Suc tl_drop)
  also have "\<dots> = suffix_of_length (min (length (g @ [e])) r) (g @ [e])"
    using False by (simp add: suffix_of_length_def min_def Suc_diff_le)
  finally show ?thesis using h(2) by simp
qed

lemma less_of_nat_kept: "0 < k \<Longrightarrow> (c < of_nat k) = (kept c < k)"
proof (cases "c < 0")
  case True
  assume "0 < k"
  have "\<lfloor>c\<rfloor> < 0" using True by (simp add: floor_less_iff)
  then have "kept c = 0" by (simp add: kept_def)
  moreover have "c < of_nat k" using True by (meson less_le_trans of_nat_0_le_iff)
  ultimately show ?thesis using \<open>0 < k\<close> by simp
next
  case False
  then have "0 \<le> \<lfloor>c\<rfloor>" by simp
  have "(c < of_nat k) = (c < of_int (int k))" by simp
  also have "\<dots> = (\<lfloor>c\<rfloor> < int k)" by (simp only: floor_less_iff)
  also have "\<dots> = (kept c < k)" using \<open>0 \<le> \<lfloor>c\<rfloor>\<close> by (simp add: kept_def nat_less_iff)
  finally show ?thesis .
qed

lemma kept_le: "0 \<le> c \<Longrightarrow> of_nat (kept c) \<le> c"
  by (simp add: kept_def)

lemma publish_suffix:
  assumes "history_suffix s g"
  shows "history_suffix (fst (publish s n m now)) (note_op s (Publish n m now) g)"
proof (cases "topics s n")
  case None
  then show ?thesis using assms by (simp add: publish_def)
next
  case (Some tp)
  define ev where "ev = Event n m now"
  define F where "F = fst (fanout (stored s n tp ev) (tsubscribers tp) ev now)"
  define g' where "g' = g(n := g n @ [ev])"
  define r where "r = kept (ringBufferSize s)"
  have h: "messageHistory tp = suffix_of_length (min (length (g n)) r) (g n)"
    using assms Some by (simp add: history_suffix_def r_def)
  have test: "(ringBufferSize s < of_nat (length (messageHistory tp @ [ev]))) =
              (r < length (messageHistory tp @ [ev]))"
    unfolding r_def by (rule less_of_nat_kept) simp
  have st: "history_suffix (stored s n tp ev) g'"
    unfolding history_suffix_def
  proof (intro allI impI)
    fix k t
    assume a: "topics (stored s n tp ev) k = Some t"
    show "messageHistory t =
            suffix_of_length (min (length (g' k)) (kept (ringBufferSize (stored s n tp ev)))) (g' k)"
    proof (cases "k = n")
      case True
      have "messageHistory t =
          (if r < length (messageHistory tp @ [ev]) then js_shift (messageHistory tp @ [ev])
           else messageHistory tp @ [ev])"
        using a True test by (auto simp: stored_def)
      then have "messageHistory t = suffix_of_length (min (length (g n @ [ev])) r) (g n @ [ev])"
        using suffix_push[OF h, of ev] by simp
      then show ?thesis
        using True by (simp add: g'_def stored_def r_def)
    next
      case False
      then show ?thesis using a assms by (simp add: stored_def history_suffix_def g'_def)
    qed
  qed
  have "stable (stored s n tp ev) F" unfolding F_def by (rule fanout_stable)
  then have "history_suffix F g'" using st stable_suffix by blast
  moreover have "stable F (fst (publish s n m now))"
    using publish_fields[OF Some, of m now] by (simp add: stable_def F_def ev_def)
  ultimately have "history_suffix (fst (publish s n m now)) g'" using stable_suffix by blast
  then show ?thesis using Some by (simp add: g'_def ev_def)
qed

lemma createTopic_suffix:
  assumes "history_suffix s g"
  shows "history_suffix (fst (createTopic s n)) (note_op s (CreateTopic n) g)"
  using assms
  by (auto simp: createTopic_def history_suffix_def suffix_of_length_def)

lemma deleteTopic_suffix:
  assumes "history_suffix s g"
  shows "history_suffix (fst (deleteTopic s n now)) g"
  using assms
  by (auto simp: deleteTopic_def history_suffix_def Let_def split: option.splits if_splits)

lemma exec_suffix:
  assumes "history_suffix s g"
  shows "history_suffix (exec s a) (note_op s a g)"
proof (cases a)
  case (CreateTopic n)
  show ?thesis unfolding CreateTopic exec.simps by (rule createTopic_suffix[OF assms])
next
  case (Publish n m now)
  show ?thesis unfolding Publish exec.simps by (rule publish_suffix[OF assms])
next
  case (Environment w t)
  then show ?thesis using assms by (simp add: history_suffix_def)
qed (simp_all add: assms deleteTopic_suffix
      stable_suffix[OF subscribe_stable] stable_suffix[OF unsubscribe_stable]
      stable_suffix[OF removeSubscriber_stable])

lemma run_suffix: "history_suffix s g \<Longrightarrow> history_suffix (run s ops) (publishStream s ops g)"
  unfolding run_def
  by (induction ops arbitrary: s g) (simp_all add: exec_suffix)

lemma history_suffix_I3:
  assumes "history_suffix s g"
  shows "I3 (ringBufferSize s) s g"
  unfolding I3_def
proof (intro allI impI conjI)
  fix n t
  assume t: "topics s n = Some t"
  then show h: "messageHistory t =
      suffix_of_length (min (length (g n)) (kept (ringBufferSize s))) (g n)"
    using assms by (simp add: history_suffix_def)
  assume "0 \<le> ringBufferSize s"
  then have "(of_nat (kept (ringBufferSize s)) :: rat) \<le> ringBufferSize s" by (rule kept_le)
  moreover have "length (messageHistory t) \<le> kept (ringBufferSize s)"
    unfolding h by (rule suffix_length)
  then have "(of_nat (length (messageHistory t)) :: rat) \<le> of_nat (kept (ringBufferSize s))"
    by (simp only: of_nat_le_iff)
  ultimately show "of_nat (length (messageHistory t)) \<le> ringBufferSize s" by simp
qed

section \<open>Queues\<close>

lemma bounded_view:
  assumes q: "\<And>c sub'. subscribers s' c = Some sub' \<Longrightarrow>
              sub_queue sub' = [] \<or> (\<exists>sub. subscribers s c = Some sub \<and> sub_queue sub' = sub_queue sub)"
    and cfg: "maxQueueSize s' = maxQueueSize s" "backpressurePolicy s' = backpressurePolicy s"
    and b: "bounded_queues s"
  shows "bounded_queues s'"
proof -
  have "length (sub_queue sub') \<le> queue_bound s" if "subscribers s' c = Some sub'" for c sub'
    using q[OF that] b unfolding bounded_queues_def queues_bounded_def by auto
  then show ?thesis using b cfg by (simp add: bounded_queues_def queues_bounded_def queue_bound_def)
qed

lemma removeSubscriber_bounded: "bounded_queues s \<Longrightarrow> bounded_queues (removeSubscriber s c)"
  by (rule bounded_view[of _ s]) (auto simp: removeSubscriber_subscribers split: if_splits)

lemma bounded_sockets [simp]: "bounded_queues (s\<lparr>sockets := sk\<rparr>) = bounded_queues s"
  by (simp add: bounded_queues_def queues_bounded_def queue_bound_def)

lemma length_js_shift: "length (js_shift xs) = length xs - 1"
  by (simp add: js_shift_tl)

lemma enqueueMessage_bounded:
  assumes "bounded_queues s"
  shows "bounded_queues (fst (enqueueMessage s c m now))"
proof (cases rule: enqueueMessage_cases[of s c m now])
  case absent
  then show ?thesis using assms by simp
next
  case (removed sk e)
  then show ?thesis using assms removeSubscriber_bounded[of "s\<lparr>sockets := sk\<rparr>" c] by simp
next
  case (pushed sub q)
  have len: "length (sub_queue sub) \<le> queue_bound s"
    and pol: "backpressurePolicy s = ''DROP_OLDEST'' \<or> backpressurePolicy s = ''DISCONNECT''"
    using assms pushed(1) by (auto simp: bounded_queues_def queues_bounded_def)
  have one: "1 \<le> queue_bound s" by (simp add: queue_bound_def)
  have "length q + 1 \<le> queue_bound s"
  proof (cases "maxQueueSize s \<le> of_nat (length (sub_queue sub))")
    case True
    then have "q = js_shift (sub_queue sub)" using pushed(3,4) pol by simp
    then show ?thesis using len one by (simp add: length_js_shift)
  next
    case False
    then have "of_int (int (length (sub_queue sub))) < maxQueueSize s" by simp
    then have "int (length (sub_queue sub)) < \<lceil>maxQueueSize s\<rceil>"
      by (simp only: less_ceiling_iff)
    then have "length (sub_queue sub) + 1 \<le> queue_bound s"
      by (simp add: queue_bound_def)
    then show ?thesis using False pushed(3) by simp
  qed
  then have "length (snd (drain (sockets s (sub_ws sub)) (q @ [m]))) \<le> queue_bound s"
    using drain_length[of "sockets s (sub_ws sub)" "q @ [m]"] by simp
  then show ?thesis
    using assms unfolding pushed(5) fst_conv bounded_queues_def queues_bounded_def
    by (auto simp: queue_bound_def)
qed

lemma joined_bounded:
  "bounded_queues s \<Longrightarrow> bounded_queues (joined s c ws n tp)"
  by (rule bounded_view[of _ s]) (auto simp: joined_subscribers split: if_splits option.splits)

lemma bounded_countSubscribers [simp]:
  "bounded_queues (countSubscribers s n st k) = bounded_queues s"
  by (simp add: bounded_queues_def queues_bounded_def queue_bound_def)

lemma subscribe_bounded:
  assumes "bounded_queues s"
  shows "bounded_queues (fst (subscribe s c ws n lastN now))"
proof (cases "topics s n")
  case None
  then show ?thesis using assms by (simp add: subscribe_def)
next
  case (Some tp)
  have j: "bounded_queues (joined s c ws n tp)" by (rule joined_bounded[OF assms])
  show ?thesis
  proof (cases "topicStats s n")
    case None
    then show ?thesis using j by (simp add: subscribe_eq[OF Some])
  next
    case (Some st)
    define s3 where "s3 = countSubscribers (joined s c ws n tp) n st (length (set_add (tsubscribers tp) c))"
    have s3: "bounded_queues s3" using j by (simp add: s3_def)
    have r: "bounded_queues (fst (replay s3 c ms now))" for ms
      by (rule replay_preserves[where P = bounded_queues, OF enqueueMessage_bounded s3])
    show ?thesis
      using s3 r[of "js_slice (messageHistory tp) (- lastN)"]
      by (auto simp: subscribe_eq[OF \<open>topics s n = Some tp\<close>] Some Let_def s3_def[symmetric]
          split: prod.splits sum.splits)
  qed
qed

lemma unsubscribe_bounded: "bounded_queues s \<Longrightarrow> bounded_queues (fst (unsubscribe s c n))"
  by (rule bounded_view[of _ s])
     (auto simp: unsubscribe_def Let_def split: option.splits if_splits)

lemma createTopic_bounded: "bounded_queues s \<Longrightarrow> bounded_queues (fst (createTopic s n))"
  by (simp add: createTopic_def bounded_queues_def queues_bounded_def queue_bound_def)

lemma deleteTopic_bounded: "bounded_queues s \<Longrightarrow> bounded_queues (fst (deleteTopic s n now))"
  by (rule bounded_view[of _ s])
     (auto simp: deleteTopic_def Let_def foldl_forgetTopic_subscribers
        split: option.splits if_splits)

lemma publish_bounded:
  assumes "bounded_queues s"
  shows "bounded_queues (fst (publish s n m now))"
proof (cases "topics s n")
  case None
  then show ?thesis using assms by (simp add: publish_def)
next
  case (Some tp)
  define ev where "ev = Event n m now"
  have st: "bounded_queues (stored s n tp ev)"
    using assms by (simp add: stored_def bounded_queues_def queues_bounded_def queue_bound_def)
  have "bounded_queues (fst (fanout (stored s n tp ev) (tsubscribers tp) ev now))"
    by (rule fanout_preserves[where P = bounded_queues, OF enqueueMessage_bounded st])
  then show ?thesis
    by (simp add: bounded_queues_def queues_bounded_def queue_bound_def publish_fields[OF Some] ev_def)
qed

lemma exec_bounded: "bounded_queues s \<Longrightarrow> bounded_queues (exec s a)"
  by (cases a)
     (simp_all add: createTopic_bounded deleteTopic_bounded subscribe_bounded
        unsubscribe_bounded publish_bounded removeSubscriber_bounded)

lemma run_bounded:
  assumes "backpressurePolicy (PubSubSystem opts) = ''DROP_OLDEST'' \<or>
           backpressurePolicy (PubSubSystem opts) = ''DISCONNECT''"
  shows "bounded_queues (run (PubSubSystem opts) ops)"
proof (rule run_preserves[where P = bounded_queues, OF exec_bounded])
  show "bounded_queues (PubSubSystem opts)"
    using assms by (simp add: bounded_queues_def queues_bounded_def) (simp add: PubSubSystem_def)
qed

text \<open>For a capacity that is a whole number and at least 1 the bound is the capacity, and
  I4 holds as the specification words it.\<close>

lemma queues_bounded_I4:
  assumes "queues_bounded s" "maxQueueSize s \<in> \<int>" "1 \<le> maxQueueSize s"
  shows "I4 s"
  unfolding I4_def
proof (intro allI impI)
  fix c sub
  assume "subscribers s c = Some sub"
  then have l: "length (sub_queue sub) \<le> queue_bound s"
    using assms(1) by (simp add: queues_bounded_def)
  obtain z where z: "maxQueueSize s = of_int z" using assms(2) by (auto elim: Ints_cases)
  then have "1 \<le> z" using assms(3) by simp
  then have "queue_bound s = nat z" by (simp add: queue_bound_def z)
  then have "int (length (sub_queue sub)) \<le> z" using l \<open>1 \<le> z\<close> by simp
  then have "(of_int (int (length (sub_queue sub))) :: rat) \<le> of_int z"
    by (simp only: of_int_le_iff)
  then show "of_nat (length (sub_queue sub)) \<le> maxQueueSize s" by (simp add: z)
qed

text \<open>No operation changes the configuration.\<close>

lemma exec_config:
  "maxQueueSize (exec s a) = maxQueueSize s \<and> ringBufferSize (exec s a) = ringBufferSize s \<and>
   backpressurePolicy (exec s a) = backpressurePolicy s"
proof (cases a)
  case (CreateTopic n)
  then show ?thesis by (simp add: createTopic_def)
next
  case (DeleteTopic n now)
  then show ?thesis by (simp add: deleteTopic_def Let_def split: option.splits)
next
  case (Subscribe c ws n lastN now)
  then show ?thesis using subscribe_stable[of s c ws n lastN now] by (simp add: stable_def)
next
  case (Unsubscribe c n)
  then show ?thesis using unsubscribe_stable[of s c n] by (simp add: stable_def)
next
  case (Publish n m now)
  show ?thesis
  proof (cases "topics s n")
    case None
    then show ?thesis using Publish by (simp add: publish_def)
  next
    case (Some tp)
    have "stable (stored s n tp (Event n m now))
            (fst (fanout (stored s n tp (Event n m now)) (tsubscribers tp) (Event n m now) now))"
      by (rule fanout_stable)
    then show ?thesis
      using Publish publish_fields[OF Some, of m now] by (simp add: stable_def stored_def)
  qed
next
  case (RemoveSubscriber c)
  then show ?thesis by simp
next
  case (Environment w t)
  then show ?thesis by simp
qed

lemma run_config:
  "maxQueueSize (run s ops) = maxQueueSize s \<and> ringBufferSize (run s ops) = ringBufferSize s \<and>
   backpressurePolicy (run s ops) = backpressurePolicy s"
  unfolding run_def
  by (induction ops arbitrary: s) (simp_all add: exec_config)

lemma enqueue_drop_oldest:
  assumes sub: "subscribers s c = Some sub"
    and op: "readyState (sockets s (sub_ws sub)) = 1"
    and full: "maxQueueSize s \<le> of_nat (length (sub_queue sub))"
    and pol: "backpressurePolicy s = ''DROP_OLDEST''"
  shows "enqueueMessage s c m now =
     (s\<lparr>sockets := (sockets s)(sub_ws sub :=
           fst (drain (sockets s (sub_ws sub)) (tl (sub_queue sub) @ [m]))),
        subscribers := (subscribers s)(c \<mapsto>
           sub\<lparr>sub_queue := snd (drain (sockets s (sub_ws sub)) (tl (sub_queue sub) @ [m]))\<rparr>)\<rparr>,
      Inr ())"
  using assms by (simp add: enqueueMessage_def pushAndFlush_open js_shift_tl)

section \<open>Which transport a delivery touches\<close>

lemma enqueueMessage_other_socket:
  assumes "\<And>sub. subscribers s c = Some sub \<Longrightarrow> w \<noteq> sub_ws sub"
  shows "sockets (fst (enqueueMessage s c m now)) w = sockets s w"
proof (cases "subscribers s c")
  case None
  then show ?thesis by (simp add: enqueueMessage_def)
next
  case (Some sub)
  then have "w \<noteq> sub_ws sub" using assms by simp
  then show ?thesis
    using Some
    by (simp add: enqueueMessage_def pushAndFlush_def flushSubscriberQueue_def
        split: prod.splits)
qed

lemma enqueueMessage_record:
  assumes "subscribers (fst (enqueueMessage s c m now)) c = Some sub'"
  shows "\<exists>sub. subscribers s c = Some sub \<and> sub_ws sub' = sub_ws sub \<and>
               sub_topics sub' = sub_topics sub"
proof (cases rule: enqueueMessage_cases[of s c m now])
  case absent
  then show ?thesis using assms by simp
next
  case (removed sk e)
  then show ?thesis using assms by (simp add: removeSubscriber_subscribers)
next
  case (pushed sub q)
  then show ?thesis using assms by auto
qed

lemma enqueueMessage_bound_elsewhere:
  assumes "bound_elsewhere s c w0 w s'" "w \<noteq> w0"
  shows "bound_elsewhere s c w0 w (fst (enqueueMessage s' c m now))"
proof -
  have "sockets (fst (enqueueMessage s' c m now)) w = sockets s' w"
  proof (rule enqueueMessage_other_socket)
    fix sub1 assume "subscribers s' c = Some sub1"
    then show "w \<noteq> sub_ws sub1" using assms by (simp add: bound_elsewhere_def)
  qed
  moreover have "sub_ws sub'' = w0"
    if "subscribers (fst (enqueueMessage s' c m now)) c = Some sub''" for sub''
  proof -
    from enqueueMessage_record[OF that] obtain sub1 where
      "subscribers s' c = Some sub1" "sub_ws sub'' = sub_ws sub1" by blast
    then show ?thesis using assms(1) by (simp add: bound_elsewhere_def)
  qed
  ultimately show ?thesis
    using assms(1) by (simp add: bound_elsewhere_def split: option.splits)
qed

lemma subscribe_preserves:
  assumes step: "\<And>s' m. P s' \<Longrightarrow> P (fst (enqueueMessage s' c m now))"
    and none: "topics s n = None \<Longrightarrow> P s"
    and j: "\<And>tp. topics s n = Some tp \<Longrightarrow> P (joined s c ws n tp)"
    and cnt: "\<And>s' st k. P s' \<Longrightarrow> P (countSubscribers s' n st k)"
  shows "P (fst (subscribe s c ws n lastN now))"
proof (cases "topics s n")
  case None
  then show ?thesis using none by (simp add: subscribe_def)
next
  case (Some tp)
  note tp = Some
  show ?thesis
  proof (cases "topicStats s n")
    case None
    then show ?thesis using j[OF tp] by (simp add: subscribe_eq[OF tp])
  next
    case (Some st)
    define s3 where "s3 = countSubscribers (joined s c ws n tp) n st (length (set_add (tsubscribers tp) c))"
    have s3: "P s3" unfolding s3_def by (rule cnt[OF j[OF tp]])
    have eq: "subscribe s c ws n lastN now =
       (if lastN > 0 \<and> messageHistory tp \<noteq> [] then
          (case replay s3 c (js_slice (messageHistory tp) (- lastN)) now of
             (s4, Inl e) \<Rightarrow> (s4, Inl e)
           | (s4, Inr _) \<Rightarrow> (s4, Inr (Subscribed n c)))
        else (s3, Inr (Subscribed n c)))"
      by (simp add: subscribe_eq[OF tp] Some s3_def Let_def)
    show ?thesis
    proof (cases "lastN > 0 \<and> messageHistory tp \<noteq> []")
      case False
      then show ?thesis using s3 eq by auto
    next
      case True
      obtain s4 r where r: "replay s3 c (js_slice (messageHistory tp) (- lastN)) now = (s4, r)"
        by (cases "replay s3 c (js_slice (messageHistory tp) (- lastN)) now")
      have "P (fst (replay s3 c (js_slice (messageHistory tp) (- lastN)) now))"
        by (rule replay_preserves[where P = P, OF step s3])
      then have "P s4" using r by simp
      moreover have "fst (subscribe s c ws n lastN now) = s4"
        using True r eq by (cases r) simp_all
      ultimately show ?thesis by simp
    qed
  qed
qed

lemma subscribe_bound_elsewhere:
  assumes sub: "subscribers s c = Some sub" and ne: "ws \<noteq> sub_ws sub"
  shows "bound_elsewhere s c (sub_ws sub) ws (fst (subscribe s c ws n lastN now))"
proof (rule subscribe_preserves[where P = "bound_elsewhere s c (sub_ws sub) ws"])
  show "bound_elsewhere s c (sub_ws sub) ws (fst (enqueueMessage s' c m now))"
    if "bound_elsewhere s c (sub_ws sub) ws s'" for s' m
    by (rule enqueueMessage_bound_elsewhere[OF that ne])
  show "bound_elsewhere s c (sub_ws sub) ws s"
    using sub by (simp add: bound_elsewhere_def)
  show "bound_elsewhere s c (sub_ws sub) ws (joined s c ws n tp)" for tp
    using sub by (simp add: bound_elsewhere_def joined_subscribers)
  show "bound_elsewhere s c (sub_ws sub) ws (countSubscribers s' n st k)"
    if "bound_elsewhere s c (sub_ws sub) ws s'" for s' st k
    using that unfolding bound_elsewhere_def countSubscribers_frame .
qed

lemma enqueueMessage_delivers:
  assumes "snd (enqueueMessage s c m now) = Inr ()" "subscribers s c = Some sub"
    "\<not> sendFails (sockets s (sub_ws sub))"
  shows "sent (sockets (fst (enqueueMessage s c m now)) (sub_ws sub)) \<noteq> [] \<and>
         last (sent (sockets (fst (enqueueMessage s c m now)) (sub_ws sub))) = m"
proof (cases rule: enqueueMessage_cases[of s c m now])
  case absent
  then show ?thesis using assms by simp
next
  case (removed sk e)
  then show ?thesis using assms by simp
next
  case (pushed sub0 q)
  then show ?thesis using assms by (simp add: drain_eq)
qed

section \<open>Replay\<close>

lemma stable_dom:
  assumes "stable s s'"
  shows "dom (topics s') = dom (topics s)" "dom (topicStats s') = dom (topicStats s)"
proof -
  have "(topics s' n = None) = (topics s n = None)" for n
    using assms unfolding stable_def by (metis option.map_disc_iff)
  then show "dom (topics s') = dom (topics s)" by (auto simp: dom_def)
  show "dom (topicStats s') = dom (topicStats s)" using assms by (simp add: stable_def)
qed

lemma stable_stats_match: "stable s s' \<Longrightarrow> stats_match s \<Longrightarrow> stats_match s'"
  by (simp add: stats_match_def stable_dom)

lemma exec_stats_match:
  assumes "stats_match s"
  shows "stats_match (exec s a)"
proof (cases a)
  case (CreateTopic n)
  then show ?thesis using assms by (auto simp: stats_match_def createTopic_def)
next
  case (DeleteTopic n now)
  then show ?thesis using assms
    by (auto simp: stats_match_def deleteTopic_def Let_def split: option.splits)
next
  case (Subscribe c ws n lastN now)
  then show ?thesis using stable_stats_match[OF subscribe_stable assms] by simp
next
  case (Unsubscribe c n)
  then show ?thesis using stable_stats_match[OF unsubscribe_stable assms] by simp
next
  case (Publish n m now)
  show ?thesis
  proof (cases "topics s n")
    case None
    then show ?thesis using Publish assms by (simp add: publish_def)
  next
    case (Some tp)
    define ev where "ev = Event n m now"
    have "stats_match (stored s n tp ev)"
      using assms Some by (auto simp: stats_match_def stored_def)
    then have "stats_match (fst (fanout (stored s n tp ev) (tsubscribers tp) ev now))"
      using stable_stats_match[OF fanout_stable] by blast
    then show ?thesis
      using Publish by (simp add: stats_match_def publish_fields[OF Some] ev_def)
  qed
next
  case (RemoveSubscriber c)
  then show ?thesis using stable_stats_match[OF removeSubscriber_stable assms] by simp
next
  case (Environment w t)
  then show ?thesis using assms by (simp add: stats_match_def)
qed

lemma run_stats_match: "stats_match (run (PubSubSystem opts) ops)"
proof (rule run_preserves[where P = stats_match])
  show "stats_match (PubSubSystem opts)"
    unfolding stats_match_def PubSubSystem_def by simp
qed (rule exec_stats_match)

lemma js_slice_suffix:
  assumes "0 < lastN"
  shows "js_slice h (- lastN) = suffix_of_length (replayed lastN (length h)) h"
proof (cases "lastN < 1")
  case True
  have "\<lceil>- lastN\<rceil> = 0"
    using assms True by (simp add: ceiling_eq_iff)
  then show ?thesis
    using True assms by (simp add: js_slice_def js_trunc_def suffix_of_length_def replayed_def)
next
  case False
  then have one: "1 \<le> lastN" by simp
  have f: "1 \<le> \<lfloor>lastN\<rfloor>" using one by (simp add: le_floor_iff)
  have t: "js_trunc (- lastN) = - \<lfloor>lastN\<rfloor>"
    using one by (simp add: js_trunc_def ceiling_minus)
  have "nat (max (int (length h) - \<lfloor>lastN\<rfloor>) 0) = length h - min (nat \<lfloor>lastN\<rfloor>) (length h)"
    using f by (simp add: max_def min_def nat_diff_distrib')
  then show ?thesis using f False by (simp add: js_slice_def t suffix_of_length_def replayed_def)
qed

lemma drain_sendFails [simp]: "sendFails (fst (drain t q)) = sendFails t"
  by (simp add: drain_eq)

lemma enqueue_push:
  assumes "subscribers s c = Some sub" "readyState (sockets s (sub_ws sub)) = 1"
    "\<not> (maxQueueSize s \<le> of_nat (length (sub_queue sub)) \<and>
        backpressurePolicy s = ''DISCONNECT'')"
  shows "enqueueMessage s c m now =
     (s\<lparr>sockets := (sockets s)(sub_ws sub :=
           fst (drain (sockets s (sub_ws sub))
                  ((if maxQueueSize s \<le> of_nat (length (sub_queue sub)) \<and>
                       backpressurePolicy s = ''DROP_OLDEST''
                    then js_shift (sub_queue sub) else sub_queue sub) @ [m]))),
        subscribers := (subscribers s)(c \<mapsto>
           sub\<lparr>sub_queue :=
             snd (drain (sockets s (sub_ws sub))
                    ((if maxQueueSize s \<le> of_nat (length (sub_queue sub)) \<and>
                         backpressurePolicy s = ''DROP_OLDEST''
                      then js_shift (sub_queue sub) else sub_queue sub) @ [m]))\<rparr>)\<rparr>,
      Inr ())"
  using assms by (auto simp: enqueueMessage_def pushAndFlush_open)

lemma fits_step:
  assumes "fits cap f len (Suc k)"
  shows "of_nat len < cap" "fits cap f (if f then Suc len else 0) k"
proof -
  show lt: "of_nat len < cap"
  proof (cases f)
    case True
    then have "(of_nat (len + k) :: rat) < cap" using assms by (simp add: fits_def)
    moreover have "(of_nat len :: rat) \<le> of_nat (len + k)" by simp
    ultimately show ?thesis by simp
  next
    case False
    then show ?thesis using assms by (simp add: fits_def)
  qed
  show "fits cap f (if f then Suc len else 0) k"
  proof (cases f)
    case True
    then show ?thesis using assms by (simp add: fits_def)
  next
    case False
    have "(0::rat) \<le> of_nat len" by simp
    then have "0 < cap" using lt by simp
    then show ?thesis using False by (simp add: fits_def)
  qed
qed

lemma mailbox_stream:
  assumes "fits cap f (length q) (length ms)"
  shows "fst (foldl (mailbox_enqueue p cap f) (a, q) ms) @
         snd (foldl (mailbox_enqueue p cap f) (a, q) ms) = a @ q @ ms"
  using assms
proof (induction ms arbitrary: a q)
  case Nil
  show ?case by simp
next
  case (Cons m ms)
  note st = fits_step[OF Cons.prems[simplified]]
  have no: "\<not> cap \<le> of_nat (length q)" using st(1) by simp
  show ?case
  proof (cases f)
    case True
    then have "fits cap f (length (q @ [m])) (length ms)" using st(2) by simp
    from Cons.IH[OF this, of a] show ?thesis using True no by simp
  next
    case False
    then have "fits cap f (length ([]::frame list)) (length ms)" using st(2) by simp
    from Cons.IH[OF this, of "a @ q @ [m]"] show ?thesis using False no by simp
  qed
qed

lemma replay_mailbox:
  assumes "subscribers s c = Some sub" "readyState (sockets s (sub_ws sub)) = 1"
    "backpressurePolicy s = ''DISCONNECT'' \<Longrightarrow>
       fits (maxQueueSize s) (sendFails (sockets s (sub_ws sub)))
         (length (sub_queue sub)) (length ms)"
  shows "snd (replay s c ms now) = Inr () \<and>
         map_option sub_ws (subscribers (fst (replay s c ms now)) c) = Some (sub_ws sub) \<and>
         sent (sockets (fst (replay s c ms now)) (sub_ws sub)) =
           fst (foldl (mailbox_enqueue (backpressurePolicy s) (maxQueueSize s)
                         (sendFails (sockets s (sub_ws sub))))
                  (sent (sockets s (sub_ws sub)), sub_queue sub) ms) \<and>
         map_option sub_queue (subscribers (fst (replay s c ms now)) c) =
           Some (snd (foldl (mailbox_enqueue (backpressurePolicy s) (maxQueueSize s)
                               (sendFails (sockets s (sub_ws sub))))
                        (sent (sockets s (sub_ws sub)), sub_queue sub) ms))"
  using assms
proof (induction ms arbitrary: s sub)
  case Nil
  then show ?case by simp
next
  case (Cons m ms)
  define t where "t = sockets s (sub_ws sub)"
  define q' where "q' = (if maxQueueSize s \<le> of_nat (length (sub_queue sub)) \<and>
                       backpressurePolicy s = ''DROP_OLDEST''
                    then js_shift (sub_queue sub) else sub_queue sub)"
  define t1 where "t1 = fst (drain t (q' @ [m]))"
  define q1 where "q1 = snd (drain t (q' @ [m]))"
  define s1 where "s1 = s\<lparr>sockets := (sockets s)(sub_ws sub := t1),
        subscribers := (subscribers s)(c \<mapsto> sub\<lparr>sub_queue := q1\<rparr>)\<rparr>"
  have nofire: "\<not> (maxQueueSize s \<le> of_nat (length (sub_queue sub)) \<and>
        backpressurePolicy s = ''DISCONNECT'')"
  proof
    assume a: "maxQueueSize s \<le> of_nat (length (sub_queue sub)) \<and>
        backpressurePolicy s = ''DISCONNECT''"
    then have "fits (maxQueueSize s) (sendFails t) (length (sub_queue sub)) (Suc (length ms))"
      using Cons.prems(3) by (simp add: t_def)
    from fits_step(1)[OF this] a show False by simp
  qed
  have e: "enqueueMessage s c m now = (s1, Inr ())"
    unfolding s1_def t1_def q1_def t_def q'_def
    by (rule enqueue_push[OF Cons.prems(1,2) nofire])
  have sub1: "subscribers s1 c = Some (sub\<lparr>sub_queue := q1\<rparr>)" by (simp add: s1_def)
  have op1: "readyState (sockets s1 (sub_ws (sub\<lparr>sub_queue := q1\<rparr>))) = 1"
    using Cons.prems(2) by (simp add: s1_def t1_def t_def)
  have sf1: "sendFails (sockets s1 (sub_ws sub)) = sendFails t"
    by (simp add: s1_def t1_def)
  have mb: "mailbox_enqueue (backpressurePolicy s) (maxQueueSize s) (sendFails t)
              (sent t, sub_queue sub) m = (sent t1, q1)"
    by (simp add: t1_def q1_def q'_def drain_eq)
  have fits1: "fits (maxQueueSize s1) (sendFails (sockets s1 (sub_ws (sub\<lparr>sub_queue := q1\<rparr>))))
         (length (sub_queue (sub\<lparr>sub_queue := q1\<rparr>))) (length ms)"
    if d: "backpressurePolicy s1 = ''DISCONNECT''"
  proof -
    have pd: "backpressurePolicy s = ''DISCONNECT''" using d by (simp add: s1_def)
    then have f: "fits (maxQueueSize s) (sendFails t) (length (sub_queue sub)) (Suc (length ms))"
      using Cons.prems(3) by (simp add: t_def)
    have "q' = sub_queue sub" using pd by (simp add: q'_def)
    then have "length q1 = (if sendFails t then Suc (length (sub_queue sub)) else 0)"
      by (simp add: q1_def drain_eq)
    then show ?thesis using fits_step(2)[OF f] sf1 by (simp add: s1_def)
  qed
  have cfg: "backpressurePolicy s1 = backpressurePolicy s" "maxQueueSize s1 = maxQueueSize s"
    by (simp_all add: s1_def)
  have sk1: "sent (sockets s1 (sub_ws sub)) = sent t1" by (simp add: s1_def)
  have fold: "foldl (mailbox_enqueue (backpressurePolicy s) (maxQueueSize s)
                       (sendFails (sockets s (sub_ws sub))))
                (sent (sockets s (sub_ws sub)), sub_queue sub) (m # ms) =
              foldl (mailbox_enqueue (backpressurePolicy s) (maxQueueSize s)
                       (sendFails (sockets s (sub_ws sub))))
                (sent t1, q1) ms"
    using mb by (simp only: foldl_Cons t_def)
  note ih = Cons.IH[OF sub1 op1 fits1]
  show ?case
    using ih
    by (simp add: e fold cfg sf1[unfolded t_def] sk1 del: mailbox_enqueue.simps foldl_Cons)
qed

section \<open>Deleting a topic\<close>

lemma written_0 [simp]: "written t 0 f = t"
  by (simp add: written_def)

lemma written_Suc: "written (written t (Suc 0) f) k f = written t (Suc k) f"
  by (simp add: written_def replicate_app_Cons_same)

lemma notifyDeleted_sockets:
  "sockets (notifyDeleted f s c) w = (if bound_to s w c then written (sockets s w) (Suc 0) f else sockets s w)"
  by (auto simp: notifyDeleted_def bound_to_def written_def ws_send_def split: option.splits)

lemma bound_to_notifyDeleted [simp]: "bound_to (notifyDeleted f s c) = bound_to s"
  by (rule ext)+ (simp add: bound_to_def)

lemma foldl_notifyDeleted_sockets:
  "sockets (foldl (notifyDeleted f) s cs) w = written (sockets s w) (length (filter (bound_to s w) cs)) f"
proof (induction cs arbitrary: s)
  case Nil
  show ?case by simp
next
  case (Cons c cs)
  show ?case
    by (simp add: Cons.IH notifyDeleted_sockets written_Suc)
qed

section \<open>C1: the result of publish\<close>

text \<open>On an existing topic \<open>publish\<close> always returns: what \<open>enqueueMessage\<close> throws is
  caught in the loop.\<close>

lemma publish_returns:
  "topics s n \<noteq> None \<Longrightarrow> \<exists>k failed. snd (publish s n m now) = Inr (Published n k failed)"
  by (auto simp: publish_def Let_def split: prod.splits option.splits)

text \<open>
  C1 says that \<open>subscribersReached\<close> is the number of joined subscribers whose enqueue
  succeeded. The code computes \<^verbatim>\<open>topic.subscribers.size - failedDeliveries.length\<close> after
  the loop, when \<^verbatim>\<open>removeSubscriber\<close> has already taken the failed subscribers out of
  \<^verbatim>\<open>topic.subscribers\<close>: each of them is subtracted twice. With \<open>a\<close> on a closed
  transport and \<open>b\<close> on an open one, the event reaches the transport of \<open>b\<close>, the only
  failure listed is \<open>a\<close>, and the count reported is 0 instead of 1. With \<open>a\<close> alone
  the count reported is -1.
\<close>

theorem publish_reached_counts_failures_twice:
  "map_option tsubscribers (topics one_closed_one_open ''orders'') = Some [''a'', ''b''] \<and>
   snd (publish one_closed_one_open ''orders'' ''m'' ''t3'') =
     Inr (Published ''orders'' 0 [(''a'', ''SUBSCRIBER_DISCONNECTED'')]) \<and>
   sent (sockets (fst (publish one_closed_one_open ''orders'' ''m'' ''t3'')) 2) =
     [Event ''orders'' ''m'' ''t3''] \<and>
   snd (publish only_closed ''orders'' ''m'' ''t3'') =
     Inr (Published ''orders'' (- 1) [(''a'', ''SUBSCRIBER_DISCONNECTED'')])"
  by code_simp

section \<open>C2: unsubscribe\<close>

text \<open>
  C2 says that \<open>unsubscribe\<close> fails with SUBSCRIPTION_NOT_FOUND whenever the pair is not
  joined, also when the topic and the subscriber record both exist. The guard of the code
  is \<^verbatim>\<open>!topic || !subscriber\<close>: with \<open>a\<close> joined to \<open>news\<close> only, unsubscribing \<open>a\<close>
  from the existing topic \<open>orders\<close> returns \<open>unsubscribed\<close>, and the handler sends an
  acknowledgement.
\<close>

theorem unsubscribe_not_joined_succeeds:
  "map_option tsubscribers (topics joined_elsewhere ''orders'') = Some [] \<and>
   map_option sub_topics (subscribers joined_elsewhere ''a'') = Some [''news''] \<and>
   snd (unsubscribe joined_elsewhere ''a'' ''orders'') = Inr (Unsubscribed ''orders'' ''a'') \<and>
   sent (sockets (handleUnsubscribe joined_elsewhere 1 (Some ''orders'') (Some ''a'')
                    (Some ''r1'') ''t2'') 1) = [Ack (Some ''r1'') ''orders'' ''t2'']"
  by code_simp

lemma handleUnsubscribe_failure:
  assumes "snd (unsubscribe s c n) = Inl e" "n \<noteq> []" "c \<noteq> []"
  shows "handleUnsubscribe s ws (Some n) (Some c) r now =
           sendError (fst (unsubscribe s c n)) ws (unsubscribe_error_code e) (error_message e) r now"
  using assms
  by (cases "unsubscribe s c n") (simp add: handleUnsubscribe_def missing_def)

text \<open>
  C2 as amended: \<open>unsubscribe\<close> fails with SUBSCRIPTION_NOT_FOUND exactly when the topic
  does not exist or the client id has no subscriber record, and the handler then answers
  with an error frame of code TOPIC_NOT_FOUND; in every other case, joined or not, it
  returns \<open>unsubscribed\<close> with the topic and the client id, and afterwards the client id is
  not in the topic's subscriber set and the topic is not in the subscriber's topic set.
\<close>

theorem unsubscribe_outcome:
  "snd (unsubscribe s c n) =
     (if topics s n = None \<or> subscribers s c = None then Inl SUBSCRIPTION_NOT_FOUND
      else Inr (Unsubscribed n c)) \<and>
   (\<forall>tp sub. topics s n = Some tp \<longrightarrow> subscribers s c = Some sub \<longrightarrow>
      map_option tsubscribers (topics (fst (unsubscribe s c n)) n) =
        Some (removeAll c (tsubscribers tp)) \<and>
      map_option sub_topics (subscribers (fst (unsubscribe s c n)) c) =
        Some (removeAll n (sub_topics sub))) \<and>
   (topics s n = None \<or> subscribers s c = None \<longrightarrow> n \<noteq> [] \<longrightarrow> c \<noteq> [] \<longrightarrow>
      \<not> sendFails (sockets s ws) \<longrightarrow>
      fst (unsubscribe s c n) = s \<and>
      handleUnsubscribe s ws (Some n) (Some c) r now =
        s\<lparr>sockets := (sockets s)(ws := (sockets s ws)\<lparr>sent := sent (sockets s ws) @
             [ErrorFrame r ''TOPIC_NOT_FOUND'' ''SUBSCRIPTION_NOT_FOUND'' now]\<rparr>)\<rparr>)"
proof (intro conjI allI impI)
  show "snd (unsubscribe s c n) =
     (if topics s n = None \<or> subscribers s c = None then Inl SUBSCRIPTION_NOT_FOUND
      else Inr (Unsubscribed n c))"
    by (auto simp: unsubscribe_def Let_def split: option.splits)
next
  fix tp sub
  assume "topics s n = Some tp" "subscribers s c = Some sub"
  then show "map_option tsubscribers (topics (fst (unsubscribe s c n)) n) =
        Some (removeAll c (tsubscribers tp))"
    and "map_option sub_topics (subscribers (fst (unsubscribe s c n)) c) =
        Some (removeAll n (sub_topics sub))"
    by (simp_all add: unsubscribe_def Let_def set_delete_def split: option.splits)
next
  assume a: "topics s n = None \<or> subscribers s c = None" "n \<noteq> []" "c \<noteq> []"
    "\<not> sendFails (sockets s ws)"
  have u: "unsubscribe s c n = (s, Inl SUBSCRIPTION_NOT_FOUND)"
    using a(1) by (auto simp: unsubscribe_def split: option.splits)
  then show "fst (unsubscribe s c n) = s" by simp
  show "handleUnsubscribe s ws (Some n) (Some c) r now =
        s\<lparr>sockets := (sockets s)(ws := (sockets s ws)\<lparr>sent := sent (sockets s ws) @
             [ErrorFrame r ''TOPIC_NOT_FOUND'' ''SUBSCRIPTION_NOT_FOUND'' now]\<rparr>)\<rparr>"
    using a u
    by (simp add: handleUnsubscribe_failure[of s c n SUBSCRIPTION_NOT_FOUND] sendError_def
        ws_send_def unsubscribe_error_code_def)
qed

theorem unsubscribe_outcome_witness:
  "snd (unsubscribe one_subscriber ''a'' ''orders'') = Inr (Unsubscribed ''orders'' ''a'') \<and>
   map_option tsubscribers (topics (fst (unsubscribe one_subscriber ''a'' ''orders'')) ''orders'') =
     Some [] \<and>
   map_option sub_topics (subscribers (fst (unsubscribe one_subscriber ''a'' ''orders'')) ''a'') =
     Some [] \<and>
   snd (unsubscribe one_subscriber ''a'' ''nowhere'') = Inl SUBSCRIPTION_NOT_FOUND \<and>
   sent (sockets (handleUnsubscribe one_subscriber 1 (Some ''nowhere'') (Some ''a'') (Some ''r1'')
                    ''t2'') 1) =
     [ErrorFrame (Some ''r1'') ''TOPIC_NOT_FOUND'' ''SUBSCRIPTION_NOT_FOUND'' ''t2'']"
proof -
  have tp: "topics one_subscriber ''orders'' =
      Some \<lparr>tsubscribers = [''a''], messageHistory = []\<rparr>"
    by code_simp
  have sb: "subscribers one_subscriber ''a'' =
      Some \<lparr>sub_ws = 1, sub_topics = [''orders''], sub_queue = []\<rparr>"
    by code_simp
  have no: "topics one_subscriber ''nowhere'' = None" by code_simp
  have sf: "\<not> sendFails (sockets one_subscriber 1)" by code_simp
  have se: "sent (sockets one_subscriber 1) = []" by code_simp
  note a = unsubscribe_outcome[of one_subscriber "''a''" "''orders''"]
  note b = unsubscribe_outcome[of one_subscriber "''a''" "''nowhere''" 1 "Some ''r1''" "''t2''"]
  from a tp sb have 1: "snd (unsubscribe one_subscriber ''a'' ''orders'') = Inr (Unsubscribed ''orders'' ''a'')"
    and 2: "map_option tsubscribers (topics (fst (unsubscribe one_subscriber ''a'' ''orders'')) ''orders'') = Some []"
    and 3: "map_option sub_topics (subscribers (fst (unsubscribe one_subscriber ''a'' ''orders'')) ''a'') = Some []"
    by simp_all
  from b no sf se have 4: "snd (unsubscribe one_subscriber ''a'' ''nowhere'') = Inl SUBSCRIPTION_NOT_FOUND"
    and 5: "sent (sockets (handleUnsubscribe one_subscriber 1 (Some ''nowhere'') (Some ''a'') (Some ''r1'')
                    ''t2'') 1) =
     [ErrorFrame (Some ''r1'') ''TOPIC_NOT_FOUND'' ''SUBSCRIPTION_NOT_FOUND'' ''t2'']"
    by simp_all
  from 1 2 3 4 5 show ?thesis by simp
qed

section \<open>C3: a transport closes\<close>

text \<open>
  C3 says that when a subscriber's transport closes, the record that \<open>subscribe\<close>
  created under the client-supplied \<open>client_id\<close> is discarded and leaves every topic.
  The \<^verbatim>\<open>'close'\<close> handler calls \<^verbatim>\<open>removeSubscriber\<close> with the identifier that
  \<^verbatim>\<open>handleConnection\<close> generated for the connection, not with the \<open>client_id\<close> of the
  subscribe frame. A connection named \<open>u1\<close> by the server that subscribed as \<open>a\<close> leaves,
  after it closes, the record \<open>a\<close> bound to the closed transport and \<open>a\<close> in the
  subscriber set of \<open>orders\<close>. Only a client that subscribed under the server's
  identifier is cleaned up.
\<close>

theorem close_leaves_client_record:
  "map_option sub_ws (subscribers (transportCloses connected_as_a 1) ''a'') = Some 1 \<and>
   readyState (sockets (transportCloses connected_as_a 1) 1) = 3 \<and>
   map_option tsubscribers (topics (transportCloses connected_as_a 1) ''orders'') = Some [''a''] \<and>
   subscribers (transportCloses connected_as_u1 1) ''u1'' = None \<and>
   map_option tsubscribers (topics (transportCloses connected_as_u1 1) ''orders'') = Some []"
  by code_simp

section \<open>C4: deleting a topic\<close>

text \<open>
  C4 says that \<open>delete_topic\<close> enqueues a \<open>topic_deleted\<close> event onto the outbound queue
  of every joined subscriber, with the backpressure policy applying when the queue is
  full. \<^verbatim>\<open>deleteTopic\<close> never touches a queue: it calls \<^verbatim>\<open>ws.send\<close> on the transport and
  swallows what that throws. With two events pending on a transport that refuses every
  send and a capacity of two, the queue is the same after \<open>deleteTopic\<close> and the notice is
  neither sent nor queued, whereas enqueueing the notice would have evicted the oldest
  event and queued it.
\<close>

theorem delete_topic_bypasses_queue:
  "map_option sub_queue (subscribers (run (PubSubSystem queue_of_two) two_pending) ''a'') =
     Some [Event ''orders'' ''E1'' ''t1'', Event ''orders'' ''E2'' ''t2''] \<and>
   map_option sub_queue
     (subscribers (fst (deleteTopic (run (PubSubSystem queue_of_two) two_pending) ''orders'' ''t3''))
        ''a'') =
     Some [Event ''orders'' ''E1'' ''t1'', Event ''orders'' ''E2'' ''t2''] \<and>
   sent (sockets (fst (deleteTopic (run (PubSubSystem queue_of_two) two_pending) ''orders'' ''t3''))
           1) = [] \<and>
   map_option sub_queue
     (subscribers (fst (enqueueMessage (run (PubSubSystem queue_of_two) two_pending) ''a''
                          (InfoTopic ''orders'' ''topic_deleted'' ''t3'') ''t3'')) ''a'') =
     Some [Event ''orders'' ''E2'' ''t2'', InfoTopic ''orders'' ''topic_deleted'' ''t3'']"
  by code_simp

text \<open>
  C4 as amended: \<open>delete_topic\<close> on an existing topic succeeds and, for every subscriber
  joined to the topic, removes the name of the topic from the topic set of the subscriber
  (nothing else of any record changes, so no queue changes) and writes one
  \<open>topic_deleted\<close> info frame straight to the transport of the subscriber when that
  transport is open and accepts it (no other frame is written to any transport, and no
  backpressure policy applies); the topic is then discarded, and every later publish to
  that name fails with TOPIC_NOT_FOUND.
\<close>

theorem deleteTopic_effect:
  assumes "topics s n = Some tp"
  shows "snd (deleteTopic s n now) = Inr (Deleted n) \<and>
         topics (fst (deleteTopic s n now)) = (topics s)(n := None) \<and>
         (\<forall>c. subscribers (fst (deleteTopic s n now)) c =
                (if c \<in> set (tsubscribers tp)
                 then map_option (\<lambda>sub. sub\<lparr>sub_topics := removeAll n (sub_topics sub)\<rparr>)
                        (subscribers s c)
                 else subscribers s c)) \<and>
         (\<forall>w. sockets (fst (deleteTopic s n now)) w =
                written (sockets s w) (length (filter (bound_to s w) (tsubscribers tp)))
                  (InfoTopic n ''topic_deleted'' now)) \<and>
         (\<forall>m now'. snd (publish (fst (deleteTopic s n now)) n m now') = Inl TOPIC_NOT_FOUND)"
proof -
  have 1: "snd (deleteTopic s n now) = Inr (Deleted n)"
    using assms by (simp add: deleteTopic_def Let_def)
  have 2: "topics (fst (deleteTopic s n now)) = (topics s)(n := None)"
    using assms by (simp add: deleteTopic_def Let_def)
  have 3: "subscribers (fst (deleteTopic s n now)) c =
                (if c \<in> set (tsubscribers tp)
                 then map_option (\<lambda>sub. sub\<lparr>sub_topics := removeAll n (sub_topics sub)\<rparr>)
                        (subscribers s c)
                 else subscribers s c)" for c
    using assms by (simp add: deleteTopic_def Let_def foldl_forgetTopic_subscribers)
  have 4: "sockets (fst (deleteTopic s n now)) w =
                written (sockets s w) (length (filter (bound_to s w) (tsubscribers tp)))
                  (InfoTopic n ''topic_deleted'' now)" for w
    using assms by (simp add: deleteTopic_def Let_def foldl_notifyDeleted_sockets)
  have 5: "snd (publish (fst (deleteTopic s n now)) n m now') = Inl TOPIC_NOT_FOUND" for m now'
    using 2 by (simp add: publish_def)
  show ?thesis using 1 2 3 4 5 by blast
qed

theorem deleteTopic_effect_witness:
  "topics one_subscriber ''orders'' = Some \<lparr>tsubscribers = [''a''], messageHistory = []\<rparr> \<and>
   snd (deleteTopic one_subscriber ''orders'' ''t2'') = Inr (Deleted ''orders'') \<and>
   topics (fst (deleteTopic one_subscriber ''orders'' ''t2'')) ''orders'' = None \<and>
   subscribers (fst (deleteTopic one_subscriber ''orders'' ''t2'')) ''a'' =
     Some \<lparr>sub_ws = 1, sub_topics = [], sub_queue = []\<rparr> \<and>
   sent (sockets (fst (deleteTopic one_subscriber ''orders'' ''t2'')) 1) =
     [InfoTopic ''orders'' ''topic_deleted'' ''t2''] \<and>
   snd (publish (fst (deleteTopic one_subscriber ''orders'' ''t2'')) ''orders'' ''m'' ''t3'') =
     Inl TOPIC_NOT_FOUND"
proof -
  have tp: "topics one_subscriber ''orders'' = Some \<lparr>tsubscribers = [''a''], messageHistory = []\<rparr>"
    by code_simp
  have sb: "subscribers one_subscriber ''a'' =
      Some \<lparr>sub_ws = 1, sub_topics = [''orders''], sub_queue = []\<rparr>"
    by code_simp
  have sk: "sockets one_subscriber 1 = open_transport ''u1''"
    by code_simp
  have bt: "bound_to one_subscriber 1 ''a''" by (simp add: bound_to_def sb)
  note d = deleteTopic_effect[OF tp, of "''t2''"]
  from d have 1: "snd (deleteTopic one_subscriber ''orders'' ''t2'') = Inr (Deleted ''orders'')"
    by blast
  from d have 2: "topics (fst (deleteTopic one_subscriber ''orders'' ''t2'')) ''orders'' = None"
    by simp
  from d have "subscribers (fst (deleteTopic one_subscriber ''orders'' ''t2'')) ''a'' =
      map_option (\<lambda>sub. sub\<lparr>sub_topics := removeAll ''orders'' (sub_topics sub)\<rparr>)
        (subscribers one_subscriber ''a'')"
    by simp
  then have 3: "subscribers (fst (deleteTopic one_subscriber ''orders'' ''t2'')) ''a'' =
     Some \<lparr>sub_ws = 1, sub_topics = [], sub_queue = []\<rparr>"
    by (simp add: sb)
  from d have "sockets (fst (deleteTopic one_subscriber ''orders'' ''t2'')) 1 =
      written (sockets one_subscriber 1) (length (filter (bound_to one_subscriber 1) [''a'']))
        (InfoTopic ''orders'' ''topic_deleted'' ''t2'')"
    by simp
  then have 4: "sent (sockets (fst (deleteTopic one_subscriber ''orders'' ''t2'')) 1) =
     [InfoTopic ''orders'' ''topic_deleted'' ''t2'']"
    by (simp add: bt[simplified] sk[simplified] written_def open_transport_def)
  from d have 5: "snd (publish (fst (deleteTopic one_subscriber ''orders'' ''t2'')) ''orders'' ''m'' ''t3'') =
     Inl TOPIC_NOT_FOUND"
    by blast
  from tp 1 2 3 4 5 show ?thesis by simp
qed

section \<open>C5: a ring buffer size of 0\<close>

lemma PubSubServer_pubsub_eq: "PubSubServer_pubsub opts = PubSubSystem opts"
  by (simp add: PubSubServer_pubsub_def PubSubSystem_def or_default_num_def or_default_str_def
      split: option.splits)

text \<open>
  C5 says that a system constructed with a ring buffer size of 0 keeps every history
  empty and replays nothing. The constructor reads the option with
  \<^verbatim>\<open>options.ringBufferSize || 100\<close>, and 0 is falsy: the capacity is 100, the history
  holds the event after one publish, and a subscriber joining with \<open>last_n = 1\<close> is sent
  it.
\<close>

theorem zero_ring_still_replays:
  "ringBufferSize (PubSubSystem ring_of_zero) = 100 \<and>
   ringBufferSize (PubSubServer_pubsub ring_of_zero) = 100 \<and>
   map_option messageHistory (topics (run (PubSubSystem ring_of_zero) one_publish_then_join) ''orders'') =
     Some [Event ''orders'' ''U1'' ''t1''] \<and>
   sent (sockets (run (PubSubSystem ring_of_zero) one_publish_then_join) 1) =
     [Event ''orders'' ''U1'' ''t1'']"
  by code_simp

lemma publish_history:
  assumes "topics s n = Some tp"
  shows "map_option messageHistory (topics (fst (publish s n m now)) n) =
     Some (if of_nat (length (messageHistory tp @ [Event n m now])) > ringBufferSize s
           then js_shift (messageHistory tp @ [Event n m now])
           else messageHistory tp @ [Event n m now])"
proof -
  define ev where "ev = Event n m now"
  have "stable (stored s n tp ev) (fst (fanout (stored s n tp ev) (tsubscribers tp) ev now))"
    by (rule fanout_stable)
  then have "map_option messageHistory
        (topics (fst (fanout (stored s n tp ev) (tsubscribers tp) ev now)) n) =
      map_option messageHistory (topics (stored s n tp ev) n)"
    by (simp add: stable_def)
  then show ?thesis
    by (simp add: publish_fields[OF assms] ev_def stored_def)
qed

text \<open>
  C5 as amended: a system constructed with a ring buffer size of 0 (or with none) runs
  with the default capacity 100, so replay is not disabled: in every state reached from
  it, a publish to an existing topic leaves a non-empty history whose newest entry is the
  published event.
\<close>

theorem zero_ring_is_default:
  assumes "opt_ringBufferSize opts = Some 0 \<or> opt_ringBufferSize opts = None"
  shows "ringBufferSize (run (PubSubSystem opts) ops) = 100 \<and>
    (\<forall>n tp m now. topics (run (PubSubSystem opts) ops) n = Some tp \<longrightarrow>
       (\<exists>h. map_option messageHistory
               (topics (fst (publish (run (PubSubSystem opts) ops) n m now)) n) = Some h \<and>
            h \<noteq> [] \<and> last h = Event n m now))"
proof -
  define s where "s = run (PubSubSystem opts) ops"
  have "ringBufferSize (PubSubSystem opts) = 100"
    using assms by (auto simp: PubSubSystem_def or_default_num_def)
  then have r: "ringBufferSize s = 100"
    using run_config[of "PubSubSystem opts" ops] by (simp add: s_def)
  have "\<exists>h. map_option messageHistory (topics (fst (publish s n m now)) n) = Some h \<and>
            h \<noteq> [] \<and> last h = Event n m now"
    if "topics s n = Some tp" for n tp m now
  proof (cases "of_nat (length (messageHistory tp @ [Event n m now])) > ringBufferSize s")
    case False
    then show ?thesis by (simp add: publish_history[OF that])
  next
    case True
    then have "messageHistory tp \<noteq> []" using r by auto
    then have "js_shift (messageHistory tp @ [Event n m now]) = tl (messageHistory tp) @ [Event n m now]"
      by (simp add: js_shift_tl)
    then show ?thesis using True by (simp add: publish_history[OF that])
  qed
  then show ?thesis using r unfolding s_def by blast
qed

theorem zero_ring_is_default_witness:
  "opt_ringBufferSize ring_of_zero = Some 0 \<and>
   ringBufferSize (run (PubSubSystem ring_of_zero) [CreateTopic ''orders'']) = 100 \<and>
   topics (run (PubSubSystem ring_of_zero) [CreateTopic ''orders'']) ''orders'' =
     Some \<lparr>tsubscribers = [], messageHistory = []\<rparr> \<and>
   (\<exists>h. map_option messageHistory
          (topics (fst (publish (run (PubSubSystem ring_of_zero) [CreateTopic ''orders''])
                          ''orders'' ''U1'' ''t1'')) ''orders'') = Some h \<and>
        h \<noteq> [] \<and> last h = Event ''orders'' ''U1'' ''t1'')"
proof -
  have z: "opt_ringBufferSize ring_of_zero = Some 0" by (simp add: ring_of_zero_def)
  have tp: "topics (run (PubSubSystem ring_of_zero) [CreateTopic ''orders'']) ''orders'' =
      Some \<lparr>tsubscribers = [], messageHistory = []\<rparr>"
    by code_simp
  from zero_ring_is_default[of ring_of_zero "[CreateTopic ''orders'']"] z tp
  show ?thesis by blast
qed

section \<open>C6: replay on subscribe\<close>

text \<open>
  C6 says that every \<open>subscribe\<close> with \<open>last_n > 0\<close> on an existing topic and an open
  transport enqueues the last \<open>min last_n |history|\<close> events. Three things stand against
  it. The transport that counts is the one the subscriber record is bound to: a client
  whose first transport has closed and who subscribes again from a second, open
  transport is replayed nothing, the first enqueue finds the old transport closed, the
  record is removed and \<open>subscribe\<close> throws SUBSCRIBER_DISCONNECTED. Under the DISCONNECT
  policy a replayed event that finds the queue full ends the replay: the subscriber is
  removed and \<open>subscribe\<close> throws SLOW_CONSUMER. And \<open>last_n\<close> is not validated:
  \<^verbatim>\<open>slice(-lastN)\<close> truncates, so with \<open>last_n = 1/2\<close> the whole history of three events
  is replayed.
\<close>

theorem replay_not_the_last_events:
  "map_option messageHistory (topics reconnected ''orders'') = Some [Event ''orders'' ''U1'' ''t1''] \<and>
   readyState (sockets reconnected 2) = 1 \<and>
   snd (subscribe reconnected ''a'' 2 ''orders'' 1 ''t3'') = Inl SUBSCRIBER_DISCONNECTED \<and>
   sent (sockets (fst (subscribe reconnected ''a'' 2 ''orders'' 1 ''t3'')) 2) = [] \<and>
   sent (sockets (fst (subscribe reconnected ''a'' 2 ''orders'' 1 ''t3'')) 1) = [] \<and>
   subscribers (fst (subscribe reconnected ''a'' 2 ''orders'' 1 ''t3'')) ''a'' = None \<and>
   backpressurePolicy (run (PubSubSystem queue_of_one) one_pending_elsewhere) = ''DISCONNECT'' \<and>
   maxQueueSize (run (PubSubSystem queue_of_one) one_pending_elsewhere) = 1 \<and>
   map_option messageHistory
     (topics (run (PubSubSystem queue_of_one) one_pending_elsewhere) ''orders'') =
     Some [Event ''orders'' ''U1'' ''t1''] \<and>
   subscribers (run (PubSubSystem queue_of_one) one_pending_elsewhere) ''a'' =
     Some \<lparr>sub_ws = 1, sub_topics = [''news''], sub_queue = [Event ''news'' ''N1'' ''t3'']\<rparr> \<and>
   readyState (sockets (run (PubSubSystem queue_of_one) one_pending_elsewhere) 1) = 1 \<and>
   snd (subscribe (run (PubSubSystem queue_of_one) one_pending_elsewhere)
          ''a'' 1 ''orders'' 1 ''t4'') = Inl SLOW_CONSUMER \<and>
   subscribers (fst (subscribe (run (PubSubSystem queue_of_one) one_pending_elsewhere)
                       ''a'' 1 ''orders'' 1 ''t4'')) ''a'' = None \<and>
   sent (sockets (fst (subscribe (run (PubSubSystem queue_of_one) one_pending_elsewhere)
                         ''a'' 1 ''orders'' 1 ''t4'')) 1) = [] \<and>
   sent (sockets (fst (subscribe (run (PubSubSystem no_options) three_publishes_then_connect)
                         ''c'' 1 ''orders'' (1 / 2) ''t4'')) 1) =
     [Event ''orders'' ''U1'' ''t1'', Event ''orders'' ''U2'' ''t2'', Event ''orders'' ''U3'' ''t3'']"
  by code_simp

text \<open>
  C6 as amended: in every state reached from a constructed system, for every
  \<open>subscribe\<close> with \<open>last_n > 0\<close> on an existing topic, when the transport bound to the
  subscriber record (the transport of the call only if the client id had no record) is
  open, and unless the policy is DISCONNECT and a replayed event finds the outbound
  queue full, \<open>subscribe\<close> succeeds and exactly the last \<open>replayed last_n |history|\<close>
  events of the history (min (integer part of \<open>last_n\<close>) \<open>|history|\<close> of them, all of them
  when \<open>last_n < 1\<close>) are enqueued onto the outbound queue of the subscriber, one after
  the other in publish order, each as any event is enqueued (under DROP_OLDEST a full
  queue loses its head first, and the queue is drained unless the transport refuses the
  send). When no replayed event finds the queue full, what the subscriber has been
  handed or still awaits is extended by exactly these events.
\<close>

theorem subscribe_replays_last_events:
  assumes tp: "topics (run (PubSubSystem opts) ops) n = Some tp"
    and pos: "0 < lastN"
    and op: "readyState (sockets (run (PubSubSystem opts) ops)
                           (bound_transport (run (PubSubSystem opts) ops) c ws)) = 1"
    and nd: "backpressurePolicy (run (PubSubSystem opts) ops) = ''DISCONNECT'' \<longrightarrow>
             replay_fits (run (PubSubSystem opts) ops) c ws
               (replayed lastN (length (messageHistory tp)))"
  shows "snd (subscribe (run (PubSubSystem opts) ops) c ws n lastN now) = Inr (Subscribed n c) \<and>
         map_option sub_ws
           (subscribers (fst (subscribe (run (PubSubSystem opts) ops) c ws n lastN now)) c) =
           Some (bound_transport (run (PubSubSystem opts) ops) c ws) \<and>
         (sent (sockets (fst (subscribe (run (PubSubSystem opts) ops) c ws n lastN now))
                  (bound_transport (run (PubSubSystem opts) ops) c ws)),
          pending (fst (subscribe (run (PubSubSystem opts) ops) c ws n lastN now)) c) =
           foldl (mailbox_enqueue (backpressurePolicy (run (PubSubSystem opts) ops))
                    (maxQueueSize (run (PubSubSystem opts) ops))
                    (sendFails (sockets (run (PubSubSystem opts) ops)
                                  (bound_transport (run (PubSubSystem opts) ops) c ws))))
             (sent (sockets (run (PubSubSystem opts) ops)
                      (bound_transport (run (PubSubSystem opts) ops) c ws)),
              pending (run (PubSubSystem opts) ops) c)
             (suffix_of_length (replayed lastN (length (messageHistory tp)))
                (messageHistory tp)) \<and>
         (replay_fits (run (PubSubSystem opts) ops) c ws
            (replayed lastN (length (messageHistory tp))) \<longrightarrow>
          outbound (fst (subscribe (run (PubSubSystem opts) ops) c ws n lastN now)) c =
            Some (sent (sockets (run (PubSubSystem opts) ops)
                          (bound_transport (run (PubSubSystem opts) ops) c ws)) @
                  pending (run (PubSubSystem opts) ops) c @
                  suffix_of_length (replayed lastN (length (messageHistory tp)))
                    (messageHistory tp)))"
proof -
  define s where "s = run (PubSubSystem opts) ops"
  define w where "w = bound_transport s c ws"
  define k where "k = replayed lastN (length (messageHistory tp))"
  define evs where "evs = suffix_of_length k (messageHistory tp)"
  define F where "F = mailbox_enqueue (backpressurePolicy s) (maxQueueSize s) (sendFails (sockets s w))"
  define s' where "s' = fst (subscribe s c ws n lastN now)"
  note tp' = tp[folded s_def]
  note pos0 = pos
  obtain st where st: "topicStats s n = Some st"
    using run_stats_match[of opts ops] tp' unfolding stats_match_def s_def by blast
  define s3 where "s3 = countSubscribers (joined s c ws n tp) n st (length (set_add (tsubscribers tp) c))"
  define sub3 where "sub3 = (case subscribers s c of
                None \<Rightarrow> \<lparr>sub_ws = ws, sub_topics = set_add [] n, sub_queue = []\<rparr>
              | Some sub \<Rightarrow> sub\<lparr>sub_topics := set_add (sub_topics sub) n\<rparr>)"
  have sub3: "subscribers s3 c = Some sub3"
    by (simp add: s3_def sub3_def joined_subscribers)
  have w3: "sub_ws sub3 = w" and q3: "sub_queue sub3 = pending s c"
    by (simp_all add: sub3_def w_def bound_transport_def pending_def split: option.splits)
  have sk: "sockets s3 = sockets s" and mx: "maxQueueSize s3 = maxQueueSize s"
    and pl: "backpressurePolicy s3 = backpressurePolicy s"
    by (simp_all add: s3_def)
  have eq: "subscribe s c ws n lastN now =
       (if messageHistory tp \<noteq> [] then
          (case replay s3 c (js_slice (messageHistory tp) (- lastN)) now of
             (s4, Inl e) \<Rightarrow> (s4, Inl e)
           | (s4, Inr _) \<Rightarrow> (s4, Inr (Subscribed n c)))
        else (s3, Inr (Subscribed n c)))"
    using pos0 by (simp add: subscribe_eq[OF tp'] st s3_def Let_def)
  have sl: "js_slice (messageHistory tp) (- lastN) = evs"
    unfolding evs_def k_def by (rule js_slice_suffix[OF pos])
  have le: "length evs = k"
    by (simp add: evs_def k_def suffix_of_length_def replayed_def)
  have main: "snd (subscribe s c ws n lastN now) = Inr (Subscribed n c) \<and>
        map_option sub_ws (subscribers s' c) = Some w \<and>
        sent (sockets s' w) = fst (foldl F (sent (sockets s w), pending s c) evs) \<and>
        map_option sub_queue (subscribers s' c) =
          Some (snd (foldl F (sent (sockets s w), pending s c) evs))"
  proof (cases "messageHistory tp = []")
    case True
    then have "evs = []" by (simp add: evs_def suffix_of_length_def)
    then show ?thesis
      using True eq sub3 w3 q3 sk by (simp add: s'_def)
  next
    case False
    have op3: "readyState (sockets s3 (sub_ws sub3)) = 1"
      using op by (simp add: w3 sk w_def s_def)
    have fits3: "fits (maxQueueSize s3) (sendFails (sockets s3 (sub_ws sub3)))
                   (length (sub_queue sub3)) (length evs)"
      if "backpressurePolicy s3 = ''DISCONNECT''"
      using nd that unfolding s_def[symmetric] k_def[symmetric] replay_fits_def w_def[symmetric]
      by (simp add: w3 q3 sk mx pl le)
    note r = replay_mailbox[OF sub3 op3 fits3, of now, unfolded w3 q3 sk mx pl, folded F_def]
    obtain s4 where s4: "replay s3 c evs now = (s4, Inr ())"
      using r by (cases "replay s3 c evs now") auto
    then show ?thesis
      using r False eq sl by (simp add: s'_def)
  qed
  have pe: "pending s' c = snd (foldl F (sent (sockets s w), pending s c) evs)"
    using main by (auto simp: pending_def split: option.splits)
  have pair: "(sent (sockets s' w), pending s' c) = foldl F (sent (sockets s w), pending s c) evs"
    using main pe by (simp add: prod_eq_iff)
  have ob: "outbound s' c = Some (sent (sockets s w) @ pending s c @ evs)"
    if f: "replay_fits s c ws k"
  proof -
    have "fits (maxQueueSize s) (sendFails (sockets s w)) (length (pending s c)) (length evs)"
      using f by (simp add: replay_fits_def w_def le)
    from mailbox_stream[OF this, of "backpressurePolicy s" "sent (sockets s w)", folded F_def]
    have "sent (sockets s' w) @ pending s' c = sent (sockets s w) @ pending s c @ evs"
      using pair by (simp add: prod_eq_iff)
    moreover obtain sub' where "subscribers s' c = Some sub'" "sub_ws sub' = w"
      using main by auto
    ultimately show ?thesis by (simp add: outbound_def pending_def)
  qed
  show ?thesis
    using main pair ob
    unfolding s'_def s_def w_def evs_def k_def F_def by blast
qed

theorem subscribe_replays_last_events_witness:
  "topics (run (PubSubSystem queue_of_two) full_queue_unblocked) ''news'' =
     Some \<lparr>tsubscribers = [],
           messageHistory = [Event ''news'' ''N1'' ''t1'', Event ''news'' ''N2'' ''t2'']\<rparr> \<and>
   backpressurePolicy (run (PubSubSystem queue_of_two) full_queue_unblocked) = ''DROP_OLDEST'' \<and>
   maxQueueSize (run (PubSubSystem queue_of_two) full_queue_unblocked) = 2 \<and>
   pending (run (PubSubSystem queue_of_two) full_queue_unblocked) ''a'' =
     [Event ''orders'' ''E1'' ''t4'', Event ''orders'' ''E2'' ''t5''] \<and>
   readyState (sockets (run (PubSubSystem queue_of_two) full_queue_unblocked)
                 (bound_transport (run (PubSubSystem queue_of_two) full_queue_unblocked)
                    ''a'' 1)) = 1 \<and>
   snd (subscribe (run (PubSubSystem queue_of_two) full_queue_unblocked)
          ''a'' 1 ''news'' 2 ''t6'') = Inr (Subscribed ''news'' ''a'') \<and>
   sent (sockets (fst (subscribe (run (PubSubSystem queue_of_two) full_queue_unblocked)
                         ''a'' 1 ''news'' 2 ''t6'')) 1) =
     [Event ''orders'' ''E2'' ''t5'', Event ''news'' ''N1'' ''t1'', Event ''news'' ''N2'' ''t2''] \<and>
   pending (fst (subscribe (run (PubSubSystem queue_of_two) full_queue_unblocked)
                   ''a'' 1 ''news'' 2 ''t6'')) ''a'' = [] \<and>
   backpressurePolicy (run (PubSubSystem queue_of_one) three_publishes_then_connect) =
     ''DISCONNECT'' \<and>
   replay_fits (run (PubSubSystem queue_of_one) three_publishes_then_connect) ''c'' 1 2 \<and>
   outbound (fst (subscribe (run (PubSubSystem queue_of_one) three_publishes_then_connect)
                    ''c'' 1 ''orders'' 2 ''t4'')) ''c'' =
     Some [Event ''orders'' ''U2'' ''t2'', Event ''orders'' ''U3'' ''t3'']"
proof -
  define s where "s = run (PubSubSystem queue_of_two) full_queue_unblocked"
  define tp where "tp = \<lparr>tsubscribers = [],
           messageHistory = [Event ''news'' ''N1'' ''t1'', Event ''news'' ''N2'' ''t2'']\<rparr>"
  have tp: "topics s ''news'' = Some tp" unfolding s_def tp_def by code_simp
  have pol: "backpressurePolicy s = ''DROP_OLDEST''" unfolding s_def by code_simp
  have mx: "maxQueueSize s = 2" unfolding s_def by code_simp
  have bt: "bound_transport s ''a'' 1 = 1" unfolding s_def by code_simp
  have op: "readyState (sockets s (bound_transport s ''a'' 1)) = 1" unfolding s_def by code_simp
  have pe: "pending s ''a'' = [Event ''orders'' ''E1'' ''t4'', Event ''orders'' ''E2'' ''t5'']"
    unfolding s_def by code_simp
  have se: "sent (sockets s 1) = []" unfolding s_def by code_simp
  have sf: "\<not> sendFails (sockets s 1)" unfolding s_def by code_simp
  have nd: "backpressurePolicy s = ''DISCONNECT'' \<longrightarrow>
            replay_fits s ''a'' 1 (replayed 2 (length (messageHistory tp)))"
    by (simp add: pol)
  have k: "replayed 2 (length (messageHistory tp)) = 2" by (simp add: tp_def replayed_def)
  have su: "suffix_of_length 2 (messageHistory tp) =
      [Event ''news'' ''N1'' ''t1'', Event ''news'' ''N2'' ''t2'']"
    by (simp add: tp_def suffix_of_length_def)
  have fo: "foldl (mailbox_enqueue ''DROP_OLDEST'' 2 False)
              ([], [Event ''orders'' ''E1'' ''t4'', Event ''orders'' ''E2'' ''t5''])
              [Event ''news'' ''N1'' ''t1'', Event ''news'' ''N2'' ''t2''] =
            ([Event ''orders'' ''E2'' ''t5'', Event ''news'' ''N1'' ''t1'', Event ''news'' ''N2'' ''t2''],
             [])"
    by (simp add: js_shift_def)
  note t = subscribe_replays_last_events[of queue_of_two full_queue_unblocked "''news''" tp 2
      "''a''" 1 "''t6''", folded s_def, OF tp _ op nd]
  have a: "snd (subscribe s ''a'' 1 ''news'' 2 ''t6'') = Inr (Subscribed ''news'' ''a'')"
    using t by simp
  have "(sent (sockets (fst (subscribe s ''a'' 1 ''news'' 2 ''t6'')) (bound_transport s ''a'' 1)),
         pending (fst (subscribe s ''a'' 1 ''news'' 2 ''t6'')) ''a'') =
        foldl (mailbox_enqueue (backpressurePolicy s) (maxQueueSize s)
                 (sendFails (sockets s (bound_transport s ''a'' 1))))
          (sent (sockets s (bound_transport s ''a'' 1)), pending s ''a'')
          (suffix_of_length (replayed 2 (length (messageHistory tp))) (messageHistory tp))"
    using t by simp
  then have "(sent (sockets (fst (subscribe s ''a'' 1 ''news'' 2 ''t6'')) 1),
         pending (fst (subscribe s ''a'' 1 ''news'' 2 ''t6'')) ''a'') =
        ([Event ''orders'' ''E2'' ''t5'', Event ''news'' ''N1'' ''t1'', Event ''news'' ''N2'' ''t2''],
         [])"
    unfolding k su bt pol mx pe se using sf fo by simp
  then have b: "sent (sockets (fst (subscribe s ''a'' 1 ''news'' 2 ''t6'')) 1) =
       [Event ''orders'' ''E2'' ''t5'', Event ''news'' ''N1'' ''t1'', Event ''news'' ''N2'' ''t2'']"
    and c: "pending (fst (subscribe s ''a'' 1 ''news'' 2 ''t6'')) ''a'' = []"
    by simp_all
  define u where "u = run (PubSubSystem queue_of_one) three_publishes_then_connect"
  define tq where "tq = \<lparr>tsubscribers = [],
           messageHistory = [Event ''orders'' ''U1'' ''t1'', Event ''orders'' ''U2'' ''t2'',
                             Event ''orders'' ''U3'' ''t3'']\<rparr>"
  have tq: "topics u ''orders'' = Some tq" unfolding u_def tq_def by code_simp
  have upol: "backpressurePolicy u = ''DISCONNECT''" unfolding u_def by code_simp
  have ubt: "bound_transport u ''c'' 1 = 1" unfolding u_def by code_simp
  have uop: "readyState (sockets u (bound_transport u ''c'' 1)) = 1" unfolding u_def by code_simp
  have upe: "pending u ''c'' = []" unfolding u_def by code_simp
  have use: "sent (sockets u 1) = []" unfolding u_def by code_simp
  have ufits: "replay_fits u ''c'' 1 2" unfolding u_def by code_simp
  have uk: "replayed 2 (length (messageHistory tq)) = 2" by (simp add: tq_def replayed_def)
  have und: "backpressurePolicy u = ''DISCONNECT'' \<longrightarrow>
            replay_fits u ''c'' 1 (replayed 2 (length (messageHistory tq)))"
    using ufits by (simp only: uk) simp
  have usu: "suffix_of_length 2 (messageHistory tq) =
      [Event ''orders'' ''U2'' ''t2'', Event ''orders'' ''U3'' ''t3'']"
    by (simp add: tq_def suffix_of_length_def)
  note v = subscribe_replays_last_events[of queue_of_one three_publishes_then_connect "''orders''" tq 2
      "''c''" 1 "''t4''", folded u_def, OF tq _ uop und]
  have "replay_fits u ''c'' 1 (replayed 2 (length (messageHistory tq))) \<longrightarrow>
        outbound (fst (subscribe u ''c'' 1 ''orders'' 2 ''t4'')) ''c'' =
          Some (sent (sockets u (bound_transport u ''c'' 1)) @ pending u ''c'' @
                suffix_of_length (replayed 2 (length (messageHistory tq)))
                  (messageHistory tq))"
    using v by simp
  then have d: "outbound (fst (subscribe u ''c'' 1 ''orders'' 2 ''t4'')) ''c'' =
     Some [Event ''orders'' ''U2'' ''t2'', Event ''orders'' ''U3'' ''t3'']"
    unfolding uk usu ubt upe use using ufits by simp
  show ?thesis
    using tp pol mx pe op a b c upol ufits d unfolding s_def u_def tp_def by simp
qed

section \<open>C7: bidirectional membership\<close>

text \<open>
  C7 (invariant I1, property P1): after any sequence of registry operations on a freshly
  constructed system, interleaved with anything the environment does to the transports,
  a client id is in the subscriber set of a topic exactly when the name of the topic is in
  the topic set of that subscriber.
\<close>

theorem bidirectional_membership: "I1 (run (PubSubSystem opts) ops)"
  by (rule crossrefs_I1[OF run_crossrefs])

theorem bidirectional_membership_witness:
  "I1 (run one_subscriber [Publish ''orders'' ''m'' ''t2'']) \<and>
   map_option tsubscribers (topics (run one_subscriber [Publish ''orders'' ''m'' ''t2'']) ''orders'')
     = Some [''a''] \<and>
   map_option sub_topics (subscribers (run one_subscriber [Publish ''orders'' ''m'' ''t2'']) ''a'')
     = Some [''orders'']"
proof -
  have "run one_subscriber [Publish ''orders'' ''m'' ''t2''] =
        run (PubSubSystem no_options)
          [CreateTopic ''orders'', Environment 1 (open_transport ''u1''),
           Subscribe ''a'' 1 ''orders'' 0 ''t1'', Publish ''orders'' ''m'' ''t2'']"
    by (simp add: one_subscriber_def run_def)
  then have "I1 (run one_subscriber [Publish ''orders'' ''m'' ''t2''])"
    using bidirectional_membership[of no_options
        "[CreateTopic ''orders'', Environment 1 (open_transport ''u1''),
          Subscribe ''a'' 1 ''orders'' 0 ''t1'', Publish ''orders'' ''m'' ''t2'']"]
    by simp
  moreover have
    "map_option tsubscribers (topics (run one_subscriber [Publish ''orders'' ''m'' ''t2'']) ''orders'')
       = Some [''a'']"
    by code_simp
  moreover have
    "map_option sub_topics (subscribers (run one_subscriber [Publish ''orders'' ''m'' ''t2'']) ''a'')
       = Some [''orders'']"
    by code_simp
  ultimately show ?thesis by simp
qed

section \<open>C8: bounded replay history\<close>

text \<open>
  C8 says that the history of every topic is never longer than \<open>ring_buffer_size\<close> and is
  the suffix of the publish stream of length min (number of publishes)
  \<open>ring_buffer_size\<close>. The constructor keeps any number that is not falsy and replaces 0 by
  100, and \<open>publish\<close> shifts when \<^verbatim>\<open>length > ringBufferSize\<close>. Configured with 0 the
  history holds one event after one publish. Configured with -1 the system runs with -1,
  the history stays empty, and its length 0 exceeds -1. Configured with 5/2 the history
  holds two events after three publishes, not min 3 (5/2) of them.
\<close>

theorem history_against_configured_size:
  "opt_ringBufferSize ring_of_zero = Some 0 \<and>
   map_option messageHistory (topics (run (PubSubSystem ring_of_zero) one_publish) ''orders'') =
     Some [Event ''orders'' ''U1'' ''t1''] \<and>
   ringBufferSize (run (PubSubSystem ring_of_minus_one) one_publish) = - 1 \<and>
   map_option messageHistory (topics (run (PubSubSystem ring_of_minus_one) one_publish) ''orders'') =
     Some [] \<and>
   ringBufferSize (run (PubSubSystem ring_of_two_and_a_half) three_publishes) = 5 / 2 \<and>
   map_option messageHistory
     (topics (run (PubSubSystem ring_of_two_and_a_half) three_publishes) ''orders'') =
     Some [Event ''orders'' ''U2'' ''t2'', Event ''orders'' ''U3'' ''t3'']"
  by code_simp

text \<open>
  C8 as amended: let \<open>c\<close> be the capacity the system runs with, which is the configured
  \<open>ring_buffer_size\<close>, or 100 when that is 0 or absent. After any sequence of operations
  on a freshly constructed system, the history of every topic is the suffix of the
  topic's publish stream whose length is the minimum of the number of publishes and the
  integer part of \<open>c\<close> (no event when \<open>c\<close> is negative), in publish order, and it is no
  longer than \<open>c\<close> when \<open>c\<close> is not negative.
\<close>

theorem bounded_replay:
  "ringBufferSize (run (PubSubSystem opts) ops) = or_default_num (opt_ringBufferSize opts) 100 \<and>
   I3 (or_default_num (opt_ringBufferSize opts) 100) (run (PubSubSystem opts) ops)
      (publishStream (PubSubSystem opts) ops (\<lambda>_. []))"
proof -
  have c: "ringBufferSize (run (PubSubSystem opts) ops) =
           or_default_num (opt_ringBufferSize opts) 100"
    using run_config[of "PubSubSystem opts" ops] by (simp add: PubSubSystem_def)
  have "history_suffix (PubSubSystem opts) (\<lambda>_. [])"
    by (simp add: history_suffix_def PubSubSystem_def)
  then have "history_suffix (run (PubSubSystem opts) ops)
               (publishStream (PubSubSystem opts) ops (\<lambda>_. []))"
    by (rule run_suffix)
  then have "I3 (ringBufferSize (run (PubSubSystem opts) ops)) (run (PubSubSystem opts) ops)
               (publishStream (PubSubSystem opts) ops (\<lambda>_. []))"
    by (rule history_suffix_I3)
  then show ?thesis using c by simp
qed

theorem bounded_replay_witness:
  "or_default_num (opt_ringBufferSize ring_of_two) 100 = 2 \<and>
   kept 2 = 2 \<and>
   I3 2 (run (PubSubSystem ring_of_two) three_publishes)
      (publishStream (PubSubSystem ring_of_two) three_publishes (\<lambda>_. [])) \<and>
   map_option messageHistory (topics (run (PubSubSystem ring_of_two) three_publishes) ''orders'') =
     Some [Event ''orders'' ''U2'' ''t2'', Event ''orders'' ''U3'' ''t3''] \<and>
   publishStream (PubSubSystem ring_of_two) three_publishes (\<lambda>_. []) ''orders'' =
     [Event ''orders'' ''U1'' ''t1'', Event ''orders'' ''U2'' ''t2'', Event ''orders'' ''U3'' ''t3'']"
proof -
  have c: "or_default_num (opt_ringBufferSize ring_of_two) 100 = 2"
    by (simp add: ring_of_two_def or_default_num_def)
  have k: "kept 2 = 2" by (simp add: kept_def)
  have "map_option messageHistory (topics (run (PubSubSystem ring_of_two) three_publishes) ''orders'') =
       Some [Event ''orders'' ''U2'' ''t2'', Event ''orders'' ''U3'' ''t3'']"
    by code_simp
  moreover have
    "publishStream (PubSubSystem ring_of_two) three_publishes (\<lambda>_. []) ''orders'' =
       [Event ''orders'' ''U1'' ''t1'', Event ''orders'' ''U2'' ''t2'', Event ''orders'' ''U3'' ''t3'']"
    by code_simp
  moreover have "I3 2 (run (PubSubSystem ring_of_two) three_publishes)
      (publishStream (PubSubSystem ring_of_two) three_publishes (\<lambda>_. []))"
    using bounded_replay[of ring_of_two three_publishes] by (simp only: c)
  ultimately show ?thesis using c k by simp
qed

section \<open>C9: DROP_OLDEST\<close>

text \<open>
  C9 says that under DROP_OLDEST an enqueue at capacity drops the head, appends the event
  and keeps the subscriber, and that no queue is ever longer than \<open>max_queue_size\<close>. The
  constructor keeps any number that is not falsy and replaces 0 by 1000, and the test
  before the shift is \<^verbatim>\<open>length >= maxQueueSize\<close>. Configured with -5 the system runs
  with -5 and a queue holds one event; configured with 0 it runs with 1000 and a queue
  holds one event; configured with 5/2 a queue holds three. And enqueueing for a
  subscriber at capacity whose transport has closed removes the subscriber: the check of
  the transport comes before the policy.
\<close>

theorem queue_against_configured_size:
  "maxQueueSize (run (PubSubSystem queue_of_minus_five) one_pending) = - 5 \<and>
   map_option sub_queue (subscribers (run (PubSubSystem queue_of_minus_five) one_pending) ''a'') =
     Some [Event ''orders'' ''E1'' ''t1''] \<and>
   opt_maxQueueSize queue_of_zero = Some 0 \<and>
   maxQueueSize (run (PubSubSystem queue_of_zero) one_pending) = 1000 \<and>
   map_option sub_queue (subscribers (run (PubSubSystem queue_of_zero) one_pending) ''a'') =
     Some [Event ''orders'' ''E1'' ''t1''] \<and>
   maxQueueSize (run (PubSubSystem queue_of_two_and_a_half) three_pending) = 5 / 2 \<and>
   map_option sub_queue
     (subscribers (run (PubSubSystem queue_of_two_and_a_half) three_pending) ''a'') =
     Some [Event ''orders'' ''E1'' ''t1'', Event ''orders'' ''E2'' ''t2'',
           Event ''orders'' ''E3'' ''t3''] \<and>
   map_option sub_queue
     (subscribers (run (PubSubSystem queue_of_two) two_pending_then_closed) ''a'') =
     Some [Event ''orders'' ''E1'' ''t1'', Event ''orders'' ''E2'' ''t2''] \<and>
   snd (enqueueMessage (run (PubSubSystem queue_of_two) two_pending_then_closed) ''a''
          (Event ''orders'' ''E3'' ''t3'') ''t3'') = Inl SUBSCRIBER_DISCONNECTED \<and>
   subscribers (fst (enqueueMessage (run (PubSubSystem queue_of_two) two_pending_then_closed)
                       ''a'' (Event ''orders'' ''E3'' ''t3'') ''t3'')) ''a'' = None"
  by code_simp

text \<open>
  C9 as amended: let \<open>c\<close> be the capacity the system runs with, which is the configured
  \<open>max_queue_size\<close>, or 1000 when that is 0 or absent. In every state reached from a
  system constructed with the DROP_OLDEST policy, no outbound queue is longer than \<open>c\<close>
  rounded up, or than 1 when that is less; when \<open>c\<close> is a whole number and at least 1 this
  is I4, no queue is longer than \<open>c\<close>. And enqueueing an event for a subscriber whose
  transport is open and whose queue is at or over the capacity succeeds, drops the head
  of the queue and appends the event (so what the subscriber has been handed or still
  awaits is the old stream without the old head, followed by the event), leaves the
  record with its transport and its topics, leaves every topic's subscriber set alone,
  and neither closes the transport nor changes its state.
\<close>

theorem drop_oldest_keeps_subscriber:
  assumes "backpressurePolicy (PubSubSystem opts) = ''DROP_OLDEST''"
  shows "maxQueueSize (run (PubSubSystem opts) ops) = or_default_num (opt_maxQueueSize opts) 1000 \<and>
    queues_bounded (run (PubSubSystem opts) ops) \<and>
    (or_default_num (opt_maxQueueSize opts) 1000 \<in> \<int> \<and>
     1 \<le> or_default_num (opt_maxQueueSize opts) 1000 \<longrightarrow> I4 (run (PubSubSystem opts) ops)) \<and>
    (\<forall>c sub m now.
       subscribers (run (PubSubSystem opts) ops) c = Some sub \<longrightarrow>
       readyState (sockets (run (PubSubSystem opts) ops) (sub_ws sub)) = 1 \<longrightarrow>
       maxQueueSize (run (PubSubSystem opts) ops) \<le> of_nat (length (sub_queue sub)) \<longrightarrow>
       (let s = run (PubSubSystem opts) ops;
            s' = fst (enqueueMessage s c m now)
        in snd (enqueueMessage s c m now) = Inr () \<and>
           subscribers s' c =
             Some (sub\<lparr>sub_queue :=
                (if sendFails (sockets s (sub_ws sub)) then tl (sub_queue sub) @ [m] else [])\<rparr>) \<and>
           outbound s' c = Some (sent (sockets s (sub_ws sub)) @ tl (sub_queue sub) @ [m]) \<and>
           topics s' = topics s \<and>
           readyState (sockets s' (sub_ws sub)) = 1 \<and>
           closeArgs (sockets s' (sub_ws sub)) = closeArgs (sockets s (sub_ws sub)) \<and>
           queues_bounded s'))"
proof -
  define s where "s = run (PubSubSystem opts) ops"
  have cap: "maxQueueSize s = or_default_num (opt_maxQueueSize opts) 1000"
    using run_config[of "PubSubSystem opts" ops] by (simp add: s_def PubSubSystem_def)
  have pol: "backpressurePolicy s = ''DROP_OLDEST''"
    using assms run_config[of "PubSubSystem opts" ops] by (simp add: s_def)
  have b: "bounded_queues s"
    unfolding s_def by (rule run_bounded) (simp add: assms)
  then have qb: "queues_bounded s" by (simp add: bounded_queues_def)
  have i4: "I4 s"
    if "or_default_num (opt_maxQueueSize opts) 1000 \<in> \<int> \<and>
        1 \<le> or_default_num (opt_maxQueueSize opts) 1000"
    by (rule queues_bounded_I4[OF qb]) (use that cap in simp_all)
  have step: "snd (enqueueMessage s c m now) = Inr () \<and>
           subscribers (fst (enqueueMessage s c m now)) c =
             Some (sub\<lparr>sub_queue :=
                (if sendFails (sockets s (sub_ws sub)) then tl (sub_queue sub) @ [m] else [])\<rparr>) \<and>
           outbound (fst (enqueueMessage s c m now)) c =
             Some (sent (sockets s (sub_ws sub)) @ tl (sub_queue sub) @ [m]) \<and>
           topics (fst (enqueueMessage s c m now)) = topics s \<and>
           readyState (sockets (fst (enqueueMessage s c m now)) (sub_ws sub)) = 1 \<and>
           closeArgs (sockets (fst (enqueueMessage s c m now)) (sub_ws sub)) =
             closeArgs (sockets s (sub_ws sub)) \<and>
           queues_bounded (fst (enqueueMessage s c m now))"
    if sub: "subscribers s c = Some sub"
      and op: "readyState (sockets s (sub_ws sub)) = 1"
      and full: "maxQueueSize s \<le> of_nat (length (sub_queue sub))"
    for c sub m now
  proof -
    have e: "enqueueMessage s c m now =
       (s\<lparr>sockets := (sockets s)(sub_ws sub :=
             fst (drain (sockets s (sub_ws sub)) (tl (sub_queue sub) @ [m]))),
          subscribers := (subscribers s)(c \<mapsto>
             sub\<lparr>sub_queue := snd (drain (sockets s (sub_ws sub)) (tl (sub_queue sub) @ [m]))\<rparr>)\<rparr>,
        Inr ())"
      by (rule enqueue_drop_oldest[OF sub op full pol])
    have "queues_bounded (fst (enqueueMessage s c m now))"
      using enqueueMessage_bounded[OF b, of c m now] by (simp add: bounded_queues_def)
    then show ?thesis
      using op by (simp add: e outbound_def drain_eq)
  qed
  show ?thesis
    using cap qb i4 step unfolding s_def[symmetric] Let_def
    by blast
qed

theorem drop_oldest_keeps_subscriber_witness:
  "backpressurePolicy (PubSubSystem queue_of_two) = ''DROP_OLDEST'' \<and>
   or_default_num (opt_maxQueueSize queue_of_two) 1000 = 2 \<and>
   I4 (run (PubSubSystem queue_of_two) two_pending) \<and>
   maxQueueSize (run (PubSubSystem queue_of_two) two_pending) = 2 \<and>
   subscribers (run (PubSubSystem queue_of_two) two_pending) ''a'' =
     Some \<lparr>sub_ws = 1, sub_topics = [''orders''],
           sub_queue = [Event ''orders'' ''E1'' ''t1'', Event ''orders'' ''E2'' ''t2'']\<rparr> \<and>
   readyState (sockets (run (PubSubSystem queue_of_two) two_pending) 1) = 1 \<and>
   subscribers (fst (enqueueMessage (run (PubSubSystem queue_of_two) two_pending) ''a''
                       (Event ''orders'' ''E3'' ''t3'') ''t3'')) ''a'' =
     Some \<lparr>sub_ws = 1, sub_topics = [''orders''],
           sub_queue = [Event ''orders'' ''E2'' ''t2'', Event ''orders'' ''E3'' ''t3'']\<rparr>"
proof -
  define s where "s = run (PubSubSystem queue_of_two) two_pending"
  have pol: "backpressurePolicy (PubSubSystem queue_of_two) = ''DROP_OLDEST''"
    by code_simp
  have c: "or_default_num (opt_maxQueueSize queue_of_two) 1000 = 2"
    by (simp add: queue_of_two_def or_default_num_def)
  have mx: "maxQueueSize s = 2" unfolding s_def by code_simp
  have sub: "subscribers s ''a'' =
     Some \<lparr>sub_ws = 1, sub_topics = [''orders''],
           sub_queue = [Event ''orders'' ''E1'' ''t1'', Event ''orders'' ''E2'' ''t2'']\<rparr>"
    unfolding s_def by code_simp
  have op: "readyState (sockets s 1) = 1" unfolding s_def by code_simp
  have fl: "sendFails (sockets s 1)" unfolding s_def by code_simp
  note t = drop_oldest_keeps_subscriber[OF pol, of two_pending, folded s_def]
  from t c have i4: "I4 s" by simp
  from t have "subscribers (fst (enqueueMessage s ''a'' (Event ''orders'' ''E3'' ''t3'') ''t3'')) ''a'' =
     Some \<lparr>sub_ws = 1, sub_topics = [''orders''],
           sub_queue = [Event ''orders'' ''E2'' ''t2'', Event ''orders'' ''E3'' ''t3'']\<rparr>"
    using sub[simplified] op[simplified] mx fl[simplified] by (simp add: Let_def)
  then show ?thesis using pol c i4 mx sub op unfolding s_def by simp
qed

section \<open>C10: the transport of an existing record\<close>



end
